theory Spec2Isabelle
  imports Main
begin

section \<open>Values shared by the server and the bridge\<close>

text \<open>
  JSON values as JavaScript holds them after \<^verbatim>\<open>JSON.parse\<close>: the client context of a
  session, the arguments of a tool call and the payload of a wire event are such values.
  An object is an association list of its own properties, in insertion order.
\<close>

datatype jsval =
    JNull
  | JBool bool
  | JNum int
  | JStr string
  | JArr "jsval list"
  | JObj "(string \<times> jsval) list"

text \<open>
  A complete tool-call request of the accumulated first-pass message
  (\<^verbatim>\<open>accumulated.tool_calls[k]\<close>): \<^verbatim>\<open>id\<close> may be undefined, which
  \<^verbatim>\<open>buildToolMessages\<close> caters for with \<^verbatim>\<open>call.id ?? `call_${idx}`\<close>.
\<close>

record tool_call =
  tc_id :: "string option"
  tc_name :: string
  tc_args :: "(string \<times> jsval) list"

text \<open>
  The LangChain message classes the server constructs. \<^verbatim>\<open>AIMessage\<close> carries its
  \<^verbatim>\<open>tool_calls\<close> (empty for \<^verbatim>\<open>new AIMessage(content)\<close>); \<^verbatim>\<open>ToolMessage\<close> carries
  \<^verbatim>\<open>content\<close>, \<^verbatim>\<open>tool_call_id\<close> and \<^verbatim>\<open>name\<close>.
\<close>

datatype message =
    SystemMessage string
  | HumanMessage string
  | AIMessage string "tool_call list"
  | ToolMessage string string string

section \<open>Session store: \<^verbatim>\<open>server/services/conversationManager.js\<close>\<close>

text \<open>
  One entry of \<^verbatim>\<open>this.sessions\<close>. The \<^verbatim>\<open>InMemoryChatMessageHistory\<close> object is
  represented by the list of messages it holds; \<^verbatim>\<open>context\<close> (here \<open>session_context\<close>) is \<^verbatim>\<open>null\<close> (\<open>JNull\<close>)
  until \<^verbatim>\<open>setSessionContext\<close> stores one. \<^verbatim>\<open>Date.now()\<close> is a natural number of
  milliseconds, passed to each operation that reads the clock.
\<close>

record session =
  history :: "message list"
  lastAccessed :: nat
  session_context :: jsval

record manager =
  sessions :: "string \<rightharpoonup> session"
  sessionTimeout :: nat
  cleanupInterval :: nat
  maxMessagesPerSession :: nat

definition new_manager :: manager where
  "new_manager =
     \<lparr>sessions = Map.empty,
      sessionTimeout = 30 * 60 * 1000,
      cleanupInterval = 5 * 60 * 1000,
      maxMessagesPerSession = 10\<rparr>"

text \<open>
  \<^verbatim>\<open>getOrCreateSession(sessionId)\<close>: creates the entry when the id is unseen, otherwise
  refreshes \<^verbatim>\<open>lastAccessed\<close>; returns the history of the entry and the updated manager.
\<close>

definition getOrCreateSession :: "manager \<Rightarrow> string \<Rightarrow> nat \<Rightarrow> message list \<times> manager" where
  "getOrCreateSession cm sessionId now =
     (case sessions cm sessionId of
        None \<Rightarrow>
          ([], cm\<lparr>sessions := (sessions cm)(sessionId \<mapsto>
                  \<lparr>history = [], lastAccessed = now, session_context = JNull\<rparr>)\<rparr>)
      | Some s \<Rightarrow>
          (history s, cm\<lparr>sessions := (sessions cm)(sessionId \<mapsto> s\<lparr>lastAccessed := now\<rparr>)\<rparr>))"

text \<open>\<^verbatim>\<open>setSessionContext(sessionId, context)\<close>.\<close>

definition setSessionContext :: "manager \<Rightarrow> string \<Rightarrow> jsval \<Rightarrow> nat \<Rightarrow> manager" where
  "setSessionContext cm sessionId ctx now =
     (let cm1 = snd (getOrCreateSession cm sessionId now) in
      case sessions cm1 sessionId of
        None \<Rightarrow> cm1
      | Some s \<Rightarrow> cm1\<lparr>sessions := (sessions cm1)(sessionId \<mapsto> s\<lparr>session_context := ctx\<rparr>)\<rparr>)"

text \<open>
  \<^verbatim>\<open>getSessionContext(sessionId)\<close>: \<^verbatim>\<open>session ? session.context : null\<close>. The manager
  is returned beside the value, as for every other method, so that what the method leaves
  alone is a statement about the model and not a consequence of its type.
\<close>

definition getSessionContext :: "manager \<Rightarrow> string \<Rightarrow> jsval \<times> manager" where
  "getSessionContext cm sessionId =
     (case sessions cm sessionId of
        None \<Rightarrow> (JNull, cm)
      | Some s \<Rightarrow> (session_context s, cm))"

text \<open>
  \<^verbatim>\<open>messages.slice(-n)\<close>: the last \<open>n\<close> elements, and the whole array for \<open>n = 0\<close>
  (\<^verbatim>\<open>-0\<close> is \<^verbatim>\<open>0\<close> in JavaScript, so \<^verbatim>\<open>slice(-0)\<close> starts at index \<open>0\<close>).
\<close>

definition slice_last :: "nat \<Rightarrow> 'a list \<Rightarrow> 'a list" where
  "slice_last n xs = (if n = 0 then xs else drop (length xs - n) xs)"

text \<open>\<^verbatim>\<open>history.addMessage(msg)\<close> on the history object of a session.\<close>

definition history_addMessage :: "manager \<Rightarrow> string \<Rightarrow> message \<Rightarrow> manager" where
  "history_addMessage cm sessionId msg =
     (case sessions cm sessionId of
        None \<Rightarrow> cm
      | Some s \<Rightarrow> cm\<lparr>sessions := (sessions cm)(sessionId \<mapsto> s\<lparr>history := history s @ [msg]\<rparr>)\<rparr>)"

text \<open>
  \<^verbatim>\<open>applyMessageWindowing(sessionId)\<close>: when the history is longer than the bound, it is
  cleared and the messages to keep are added back one by one.
\<close>

definition applyMessageWindowing :: "manager \<Rightarrow> string \<Rightarrow> manager" where
  "applyMessageWindowing cm sessionId =
     (case sessions cm sessionId of
        None \<Rightarrow> cm
      | Some s \<Rightarrow>
          (let messages = history s in
           if length messages > maxMessagesPerSession cm then
             (let messagesToKeep = slice_last (maxMessagesPerSession cm) messages in
              cm\<lparr>sessions := (sessions cm)(sessionId \<mapsto>
                    s\<lparr>history := fold (\<lambda>msg h. h @ [msg]) messagesToKeep []\<rparr>)\<rparr>)
           else cm))"

text \<open>\<^verbatim>\<open>addMessage(sessionId, content, isUser)\<close>.\<close>

definition addMessage :: "manager \<Rightarrow> string \<Rightarrow> string \<Rightarrow> bool \<Rightarrow> nat \<Rightarrow> manager" where
  "addMessage cm sessionId content isUser now =
     (let cm1 = snd (getOrCreateSession cm sessionId now);
          msg = (if isUser then HumanMessage content else AIMessage content []);
          cm2 = history_addMessage cm1 sessionId msg
      in applyMessageWindowing cm2 sessionId)"

text \<open>
  \<^verbatim>\<open>getMessages(sessionId, limit = null)\<close>: \<^verbatim>\<open>limit && messages.length > limit\<close> is
  false for \<^verbatim>\<open>null\<close> and for \<open>0\<close>.
\<close>

definition getMessages :: "manager \<Rightarrow> string \<Rightarrow> nat option \<Rightarrow> nat \<Rightarrow> message list \<times> manager" where
  "getMessages cm sessionId limit now =
     (let (messages, cm1) = getOrCreateSession cm sessionId now in
      case limit of
        None \<Rightarrow> (messages, cm1)
      | Some l \<Rightarrow>
          if l \<noteq> 0 \<and> length messages > l then (slice_last l messages, cm1)
          else (messages, cm1))"

text \<open>
  \<^verbatim>\<open>clearSession(sessionId)\<close>: no exception is raised on any path, so the result is the
  manager alone.
\<close>

definition clearSession :: "manager \<Rightarrow> string \<Rightarrow> manager" where
  "clearSession cm sessionId =
     (if sessions cm sessionId \<noteq> None
      then cm\<lparr>sessions := (sessions cm)(sessionId := None)\<rparr>
      else cm)"

text \<open>
  \<^verbatim>\<open>getSessionInfo(sessionId)\<close>, without the ISO rendering of the date:
  \<open>(messageCount, lastAccessed, ageMinutes)\<close>, or \<open>None\<close> for \<^verbatim>\<open>null\<close>.
\<close>

definition getSessionInfo :: "manager \<Rightarrow> string \<Rightarrow> nat \<Rightarrow> (nat \<times> nat \<times> nat) option" where
  "getSessionInfo cm sessionId now =
     (case sessions cm sessionId of
        None \<Rightarrow> None
      | Some s \<Rightarrow> Some (length (history s), lastAccessed s, (now - lastAccessed s) div 60000))"

text \<open>
  The messages a session holds, read without going through the manager's methods (an
  unseen id holds none). Used to state what an operation leaves in the store.
\<close>

definition stored_messages :: "manager \<Rightarrow> string \<Rightarrow> message list" where
  "stored_messages cm sessionId =
     (case sessions cm sessionId of None \<Rightarrow> [] | Some s \<Rightarrow> history s)"

text \<open>
  A run of \<^verbatim>\<open>addMessage\<close> calls on one session, each with its content, its
  \<^verbatim>\<open>isUser\<close> flag and the clock reading at the call.
\<close>

fun addMessages :: "manager \<Rightarrow> string \<Rightarrow> (string \<times> bool \<times> nat) list \<Rightarrow> manager" where
  "addMessages cm sessionId [] = cm"
| "addMessages cm sessionId ((content, isUser, now) # calls) =
     addMessages (addMessage cm sessionId content isUser now) sessionId calls"

definition appended :: "(string \<times> bool \<times> nat) \<Rightarrow> message" where
  "appended c = (case c of (content, isUser, now) \<Rightarrow>
                   if isUser then HumanMessage content else AIMessage content [])"

section \<open>Stage-1 events: \<^verbatim>\<open>server/utils/helpers.js\<close>\<close>

text \<open>
  The events \<^verbatim>\<open>sendSSEEvent(res, type, data)\<close> is called with, one constructor per
  \<^verbatim>\<open>type\<close> together with the fields of its \<^verbatim>\<open>data\<close>:
  \<^verbatim>\<open>session {sessionId}\<close>, \<^verbatim>\<open>token {content}\<close>, \<^verbatim>\<open>tool_executing {tools}\<close>,
  \<^verbatim>\<open>tool_result {tool, result}\<close>, \<^verbatim>\<open>tool_error {tool, error}\<close>,
  \<^verbatim>\<open>error {message}\<close> and \<^verbatim>\<open>done\<close>.
\<close>

datatype turn_event =
    Session_ev string
  | Token_ev string
  | Tool_executing_ev "string list"
  | Tool_result_ev string string
  | Tool_error_ev string string
  | Error_ev string
  | Done_ev

text \<open>
  The Express response as the handler uses it: the events written so far, and whether
  \<^verbatim>\<open>res.end()\<close> has been called.
\<close>

record response =
  written :: "turn_event list"
  ended :: bool

definition sendSSEEvent :: "response \<Rightarrow> turn_event \<Rightarrow> response" where
  "sendSSEEvent res ev = res\<lparr>written := written res @ [ev]\<rparr>"

definition res_end :: "response \<Rightarrow> response" where
  "res_end res = res\<lparr>ended := True\<rparr>"

text \<open>
  A chunk of a generation stream (\<^verbatim>\<open>AIMessageChunk\<close>): its text \<^verbatim>\<open>content\<close> and the
  complete \<^verbatim>\<open>tool_calls\<close> it holds. The content of a chat-model chunk is taken to be a
  string.
\<close>

record chunk =
  content :: string
  tool_calls :: "tool_call list"

text \<open>\<^verbatim>\<open>extractChunkContent(chunk)\<close> on a chunk object: \<^verbatim>\<open>chunk?.content\<close> when truthy, else \<^verbatim>\<open>''\<close>.\<close>

definition extractChunkContent :: "chunk \<Rightarrow> string" where
  "extractChunkContent c = (if content c \<noteq> [] then content c else [])"

text \<open>
  A stream consumed with \<^verbatim>\<open>for await\<close>: the chunks it yields, and whether it then ends or
  throws (\<open>Failed\<close> carries \<^verbatim>\<open>error.message\<close>). A call that throws before yielding is a
  stream with no chunk that fails.
\<close>

datatype stream_end = Finished | Failed string

type_synonym chunk_stream = "chunk list \<times> stream_end"

section \<open>Tools: \<^verbatim>\<open>server/utils/streamProcessor.js\<close>, \<^verbatim>\<open>server/services/tools/toolExecutor.js\<close>\<close>

text \<open>
  A registered tool: its \<^verbatim>\<open>name\<close> and its \<^verbatim>\<open>invoke\<close>, which returns a string
  (\<open>Inr\<close>) or throws (\<open>Inl\<close> carries \<^verbatim>\<open>error.message\<close>).
\<close>

record tool =
  tool_name :: string
  invoke :: "jsval \<Rightarrow> string + string"

text \<open>
  An element of the array \<^verbatim>\<open>executeToolCallsWithSSE\<close> returns and \<^verbatim>\<open>buildToolMessages\<close>
  reads: \<^verbatim>\<open>name\<close>, \<^verbatim>\<open>result\<close> and \<^verbatim>\<open>error\<close>, the last two possibly undefined.
\<close>

record tool_result =
  tr_name :: string
  tr_result :: "string option"
  tr_error :: "string option"

text \<open>\<^verbatim>\<open>obj[key] = v\<close>: an existing property keeps its place, a new one goes last.\<close>

fun obj_set :: "(string \<times> jsval) list \<Rightarrow> string \<Rightarrow> jsval \<Rightarrow> (string \<times> jsval) list" where
  "obj_set [] k v = [(k, v)]"
| "obj_set ((k', v') # ps) k v = (if k' = k then (k, v) # ps else (k', v') # obj_set ps k v)"

text \<open>
  The loop of \<^verbatim>\<open>executeToolCallsWithSSE\<close> over \<^verbatim>\<open>toolCalls\<close>, on the pair of
  \<^verbatim>\<open>results\<close> and \<^verbatim>\<open>res\<close>: a tool that is not found writes \<^verbatim>\<open>tool_error\<close> and
  \<^verbatim>\<open>continue\<close>s; a tool that returns writes \<^verbatim>\<open>tool_result\<close> and pushes
  \<^verbatim>\<open>{name, result}\<close>; a tool that throws writes \<^verbatim>\<open>tool_error\<close> in the
  \<^verbatim>\<open>catch\<close>.
\<close>

fun tool_loop ::
  "tool list \<Rightarrow> jsval \<Rightarrow> tool_call list \<Rightarrow> tool_result list \<times> response
     \<Rightarrow> tool_result list \<times> response" where
  "tool_loop tools clientContext [] st = st"
| "tool_loop tools clientContext (toolCall # rest) (results, res) =
     (case find (\<lambda>t. tool_name t = tc_name toolCall) tools of
        None \<Rightarrow>
          tool_loop tools clientContext rest
            (results,
             sendSSEEvent res
               (Tool_error_ev (tc_name toolCall)
                  (''Tool '' @ [CHR 0x27] @ tc_name toolCall @ [CHR 0x27] @ '' not found'')))
      | Some t \<Rightarrow>
          (case invoke t (JObj (obj_set (tc_args toolCall) ''_clientContext'' clientContext)) of
             Inr toolResult \<Rightarrow>
               tool_loop tools clientContext rest
                 (results @ [\<lparr>tr_name = tc_name toolCall, tr_result = Some toolResult,
                              tr_error = None\<rparr>],
                  sendSSEEvent res (Tool_result_ev (tc_name toolCall) toolResult))
           | Inl msg \<Rightarrow>
               tool_loop tools clientContext rest
                 (results, sendSSEEvent res (Tool_error_ev (tc_name toolCall) msg))))"

text \<open>\<^verbatim>\<open>executeToolCallsWithSSE(toolCalls, tools, res, sessionId)\<close>.\<close>

definition executeToolCallsWithSSE ::
  "manager \<Rightarrow> tool_call list \<Rightarrow> tool list \<Rightarrow> response \<Rightarrow> string
     \<Rightarrow> tool_result list \<times> response" where
  "executeToolCallsWithSSE cm toolCalls tools res sessionId =
     (let clientContext = fst (getSessionContext cm sessionId) in
      tool_loop tools clientContext toolCalls ([], res))"

text \<open>\<^verbatim>\<open>String(idx)\<close> for an array index: its decimal digits.\<close>

fun string_of_index :: "nat \<Rightarrow> string" where
  "string_of_index n =
     (if n < 10 then [char_of (48 + n)]
      else string_of_index (n div 10) @ [char_of (48 + n mod 10)])"

text \<open>
  \<^verbatim>\<open>buildToolMessages(toolResults, toolCalls)\<close>: the result at index \<open>idx\<close> is paired
  with \<^verbatim>\<open>toolCalls[idx] || {}\<close>; a truthy \<^verbatim>\<open>result.error\<close> is rendered with the
  prefix \<^verbatim>\<open>Error: \<close>, otherwise the content is \<^verbatim>\<open>String(result.result ?? '')\<close>; the
  id is \<^verbatim>\<open>call.id ?? `call_${idx}`\<close>.
\<close>

definition buildToolMessage :: "tool_call list \<Rightarrow> nat \<times> tool_result \<Rightarrow> message" where
  "buildToolMessage toolCalls p =
     (case p of (idx, result) \<Rightarrow>
        (let call_id = (if idx < length toolCalls then tc_id (toolCalls ! idx) else None);
             content =
               (case tr_error result of
                  Some e \<Rightarrow>
                    if e \<noteq> [] then ''Error: '' @ e
                    else (case tr_result result of Some r \<Rightarrow> r | None \<Rightarrow> [])
                | None \<Rightarrow> (case tr_result result of Some r \<Rightarrow> r | None \<Rightarrow> []))
         in ToolMessage content
              (case call_id of Some i \<Rightarrow> i | None \<Rightarrow> ''call_'' @ string_of_index idx)
              (tr_name result)))"

definition buildToolMessages :: "tool_result list \<Rightarrow> tool_call list \<Rightarrow> message list" where
  "buildToolMessages toolResults toolCalls =
     map (buildToolMessage toolCalls) (enumerate 0 toolResults)"

section \<open>Turn orchestration: \<^verbatim>\<open>server/routes/chat.js\<close>\<close>

text \<open>
  What \<^verbatim>\<open>ragService.getChain()\<close> resolves to. The members are external collaborators
  and are taken as given: \<^verbatim>\<open>ragChain.stream({question, chat_history})\<close> and
  \<^verbatim>\<open>llm.stream(messages)\<close> return a stream, \<^verbatim>\<open>contextRetriever(question)\<close> returns
  the context block or throws (\<open>Inl\<close>).
\<close>

record chain =
  ragChain_stream :: "string \<Rightarrow> message list \<Rightarrow> chunk_stream"
  chain_tools :: "tool list"
  llm_stream :: "message list \<Rightarrow> chunk_stream"
  contextRetriever :: "string \<Rightarrow> string + string"

text \<open>The generation calls a turn issues, with their arguments, in call order.\<close>

datatype generation_call =
    RagChainStream string "message list"
  | LlmStream "message list"

text \<open>
  What a turn leaves behind: the response, the session store, and the generation calls it
  issued.
\<close>

record turn_result =
  res_after :: response
  store_after :: manager
  generation_calls :: "generation_call list"

text \<open>
  The first \<^verbatim>\<open>for await\<close> loop (lines 63 to 76) on \<^verbatim>\<open>accumulated\<close> (\<open>None\<close> for
  \<^verbatim>\<open>null\<close>), \<^verbatim>\<open>textParts\<close> and \<^verbatim>\<open>res\<close>. \<^verbatim>\<open>accumulated.concat(chunk)\<close> belongs to
  the message library and is the parameter \<open>concat_chunk\<close>.
\<close>

fun first_pass_loop ::
  "(chunk \<Rightarrow> chunk \<Rightarrow> chunk) \<Rightarrow> chunk list \<Rightarrow> chunk option \<times> string list \<times> response
     \<Rightarrow> chunk option \<times> string list \<times> response" where
  "first_pass_loop concat_chunk [] st = st"
| "first_pass_loop concat_chunk (c # cs) (accumulated, textParts, res) =
     (let accumulated' = (case accumulated of None \<Rightarrow> c | Some a \<Rightarrow> concat_chunk a c);
          textContent = extractChunkContent c
      in if textContent \<noteq> [] then
           first_pass_loop concat_chunk cs
             (Some accumulated', textParts @ [textContent],
              sendSSEEvent res (Token_ev textContent))
         else first_pass_loop concat_chunk cs (Some accumulated', textParts, res))"

text \<open>
  The synthesis \<^verbatim>\<open>for await\<close> loop (lines 107 to 114) on \<^verbatim>\<open>synthesisParts\<close> and
  \<^verbatim>\<open>res\<close>.
\<close>

fun synthesis_loop :: "chunk list \<Rightarrow> string list \<times> response \<Rightarrow> string list \<times> response" where
  "synthesis_loop [] st = st"
| "synthesis_loop (c # cs) (synthesisParts, res) =
     (let text = content c
      in if text \<noteq> [] then
           synthesis_loop cs (synthesisParts @ [text], sendSSEEvent res (Token_ev text))
         else synthesis_loop cs (synthesisParts, res))"

text \<open>\<^verbatim>\<open>if (context)\<close>: the truthiness of a value.\<close>

fun truthy :: "jsval \<Rightarrow> bool" where
  "truthy JNull = False"
| "truthy (JBool b) = b"
| "truthy (JNum n) = (n \<noteq> 0)"
| "truthy (JStr s) = (s \<noteq> [])"
| "truthy (JArr _) = True"
| "truthy (JObj _) = True"

text \<open>The \<^verbatim>\<open>catch\<close> block (lines 131 to 135): one \<^verbatim>\<open>error\<close> event, then \<^verbatim>\<open>res.end()\<close>.\<close>

definition catch_error ::
  "response \<Rightarrow> manager \<Rightarrow> generation_call list \<Rightarrow> string \<Rightarrow> turn_result" where
  "catch_error r cm calls msg =
     \<lparr>res_after = res_end (sendSSEEvent r (Error_ev msg)), store_after = cm,
       generation_calls = calls\<rparr>"

text \<open>
  Lines 121 to 130: the answer is appended, \<^verbatim>\<open>done\<close> is written, the response is ended,
  and the messages are read once more for the log line.
\<close>

definition finish_turn ::
  "response \<Rightarrow> manager \<Rightarrow> generation_call list \<Rightarrow> string \<Rightarrow> string \<Rightarrow> nat \<Rightarrow> turn_result" where
  "finish_turn r cm calls sessionId savedResponse now =
     (let cm1 = addMessage cm sessionId savedResponse False now;
          r1 = res_end (sendSSEEvent r Done_ev);
          cm2 = snd (getMessages cm1 sessionId None now)
      in \<lparr>res_after = r1, store_after = cm2, generation_calls = calls\<rparr>)"

text \<open>
  The synthesis messages of lines 96 to 104. \<open>chatHistory\<close> is what the array
  \<^verbatim>\<open>getMessages\<close> returned at line 51 holds when line 100 spreads it.
\<close>

definition synthesisMessages ::
  "string \<Rightarrow> message list \<Rightarrow> string \<Rightarrow> tool_call list \<Rightarrow> tool_result list \<Rightarrow> message list" where
  "synthesisMessages ragContext chatHistory msg toolCalls allToolResults =
     [SystemMessage
        (''You are a helpful assistant. Use the tool results and document context below to answer the user'' @ [CHR 0x27] @ ''s question naturally and completely.'' @ [CHR 0x0A, CHR 0x0A] @ ''Document context:'' @ [CHR 0x0A] @ ragContext)]
     @ chatHistory
     @ [HumanMessage msg, AIMessage [] toolCalls]
     @ buildToolMessages allToolResults toolCalls"

text \<open>
  Lines 38 to 54 of the handler: the context is stored when it is truthy, the history is
  read into \<^verbatim>\<open>chatHistory\<close>, and the user's message is appended.

  \<^verbatim>\<open>getMessages\<close> returns \<^verbatim>\<open>messages\<close> as \<^verbatim>\<open>history.getMessages()\<close> gave it, without a
  copy (line 105), and that is the array the history object itself holds: \<^verbatim>\<open>chatHistory\<close>
  is an alias of it. \<^verbatim>\<open>history.addMessage\<close> at line 54 pushes onto that array. Windowing,
  when it applies, calls \<^verbatim>\<open>history.clear()\<close>, which gives the history a new array, and
  adds the kept messages to the new one; the array \<^verbatim>\<open>chatHistory\<close> names is left as it
  was after the push. So from line 54 on \<^verbatim>\<open>chatHistory\<close> holds the messages read at line
  51 followed by the user's message, not windowed. The first component of the result is
  that content: it is what \<^verbatim>\<open>ragChain.stream\<close> receives as \<^verbatim>\<open>chat_history\<close> and what
  line 100 spreads into the synthesis messages. The second component is the store.
\<close>

definition begin_turn ::
  "nat \<Rightarrow> manager \<Rightarrow> string \<Rightarrow> string \<Rightarrow> jsval \<Rightarrow> message list \<times> manager" where
  "begin_turn now cm0 msg sessionId ctx =
     (let cm1 = (if truthy ctx then setSessionContext cm0 sessionId ctx now else cm0);
          (chatHistory, cm2) = getMessages cm1 sessionId None now;
          cm3 = addMessage cm2 sessionId msg True now
      in (chatHistory @ [HumanMessage msg], cm3))"

text \<open>
  The handler of \<^verbatim>\<open>POST /\<close> from line 34 on, for a request that passed validation:
  \<open>msg\<close>, \<open>sessionId\<close> and \<open>ctx\<close> are the fields of \<^verbatim>\<open>validation\<close> (\<open>ctx\<close> is
  \<open>JNull\<close> when the request had no context). \<open>getChain\<close> is the outcome of
  \<^verbatim>\<open>ragService.getChain()\<close>, \<open>Inl\<close> when it throws. Every clock reading of the turn is
  \<open>now\<close>. Each \<open>Inl\<close> and each \<open>Failed\<close> leads to the \<^verbatim>\<open>catch\<close> block with the response
  and the store as they are at that point. \<open>chatHistory\<close> is the content of the
  array of that name from line 54 on, as \<open>begin_turn\<close> gives it: nothing the handler does
  between line 54 and the synthesis call changes the session's messages.
\<close>

definition chat_turn ::
  "(string + chain) \<Rightarrow> (chunk \<Rightarrow> chunk \<Rightarrow> chunk) \<Rightarrow> nat \<Rightarrow> manager
     \<Rightarrow> string \<Rightarrow> string \<Rightarrow> jsval \<Rightarrow> turn_result" where
  "chat_turn getChain concat_chunk now cm0 msg sessionId ctx =
     (let r1 = sendSSEEvent \<lparr>written = [], ended = False\<rparr> (Session_ev sessionId);
          (chatHistory, cm3) = begin_turn now cm0 msg sessionId ctx
      in case getChain of
           Inl e \<Rightarrow> catch_error r1 cm3 [] e
         | Inr ch \<Rightarrow>
             (let calls1 = [RagChainStream msg chatHistory];
                  (chunks, ending) = ragChain_stream ch msg chatHistory;
                  (accumulated, textParts, r2) = first_pass_loop concat_chunk chunks (None, [], r1)
              in case ending of
                   Failed e \<Rightarrow> catch_error r2 cm3 calls1 e
                 | Finished \<Rightarrow>
                     (let toolCalls = (case accumulated of None \<Rightarrow> [] | Some a \<Rightarrow> tool_calls a);
                          (allToolResults, r4) =
                            (if length toolCalls > 0 then
                               executeToolCallsWithSSE cm3 toolCalls (chain_tools ch)
                                 (sendSSEEvent r2 (Tool_executing_ev (map tc_name toolCalls)))
                                 sessionId
                             else ([], r2))
                      in if length allToolResults > 0 then
                           (case contextRetriever ch msg of
                              Inl e \<Rightarrow> catch_error r4 cm3 calls1 e
                            | Inr ragContext \<Rightarrow>
                                (let messages = synthesisMessages ragContext chatHistory msg
                                                  toolCalls allToolResults;
                                     calls2 = calls1 @ [LlmStream messages];
                                     (schunks, sending) = llm_stream ch messages;
                                     (synthesisParts, r5) = synthesis_loop schunks ([], r4)
                                 in case sending of
                                      Failed e \<Rightarrow> catch_error r5 cm3 calls2 e
                                    | Finished \<Rightarrow>
                                        finish_turn r5 cm3 calls2 sessionId
                                          (concat synthesisParts) now))
                         else finish_turn r4 cm3 calls1 sessionId (concat textParts) now)))"

section \<open>Reading a turn's events\<close>

fun is_tool_executing :: "turn_event \<Rightarrow> bool" where
  "is_tool_executing (Tool_executing_ev _) = True"
| "is_tool_executing _ = False"

fun is_tool_outcome :: "turn_event \<Rightarrow> bool" where
  "is_tool_outcome (Tool_result_ev _ _) = True"
| "is_tool_outcome (Tool_error_ev _ _) = True"
| "is_tool_outcome _ = False"

fun is_error_ev :: "turn_event \<Rightarrow> bool" where
  "is_error_ev (Error_ev _) = True"
| "is_error_ev _ = False"

fun is_llm_stream :: "generation_call \<Rightarrow> bool" where
  "is_llm_stream (LlmStream _) = True"
| "is_llm_stream _ = False"

fun is_tool_result :: "turn_event \<Rightarrow> bool" where
  "is_tool_result (Tool_result_ev _ _) = True"
| "is_tool_result _ = False"

fun is_done :: "turn_event \<Rightarrow> bool" where
  "is_done Done_ev = True"
| "is_done _ = False"

text \<open>
  The non-empty texts of the chunks of a stream: what \<^verbatim>\<open>extractChunkContent\<close> gives in
  the first pass, and \<^verbatim>\<open>chunk.content\<close> in the synthesis pass.
\<close>

definition chunk_texts :: "chunk list \<Rightarrow> string list" where
  "chunk_texts cs = filter (\<lambda>t. t \<noteq> []) (map extractChunkContent cs)"

definition synthesis_texts :: "chunk list \<Rightarrow> string list" where
  "synthesis_texts cs = filter (\<lambda>t. t \<noteq> []) (map content cs)"

text \<open>
  One round of the loop of \<^verbatim>\<open>executeToolCallsWithSSE\<close> taken alone: what it pushes to
  \<^verbatim>\<open>results\<close> and the event it writes. \<open>tool_loop\<close> is shown below to be the
  succession of these rounds.
\<close>

definition tool_round :: "tool list \<Rightarrow> jsval \<Rightarrow> tool_call \<Rightarrow> tool_result list \<times> turn_event" where
  "tool_round tools clientContext toolCall =
     (case find (\<lambda>t. tool_name t = tc_name toolCall) tools of
        None \<Rightarrow>
          ([], Tool_error_ev (tc_name toolCall)
                  (''Tool '' @ [CHR 0x27] @ tc_name toolCall @ [CHR 0x27] @ '' not found''))
      | Some t \<Rightarrow>
          (case invoke t (JObj (obj_set (tc_args toolCall) ''_clientContext'' clientContext)) of
             Inr toolResult \<Rightarrow>
               ([\<lparr>tr_name = tc_name toolCall, tr_result = Some toolResult, tr_error = None\<rparr>],
                Tool_result_ev (tc_name toolCall) toolResult)
           | Inl msg \<Rightarrow> ([], Tool_error_ev (tc_name toolCall) msg)))"


fun token_content :: "turn_event \<Rightarrow> string option" where
  "token_content (Token_ev t) = Some t"
| "token_content _ = None"

text \<open>The contents of the \<^verbatim>\<open>token\<close> events of a list of events, in order.\<close>

definition tokens :: "turn_event list \<Rightarrow> string list" where
  "tokens evs = List.map_filter token_content evs"

text \<open>
  The handler writes \<^verbatim>\<open>tool_executing\<close> after the first-pass loop and before the
  synthesis loop, so the tokens of the synthesis pass are those written after it.
\<close>

definition synthesis_tokens :: "turn_event list \<Rightarrow> string list" where
  "synthesis_tokens evs = tokens (dropWhile (\<lambda>e. \<not> is_tool_executing e) evs)"

text \<open>A turn ends in the errored state when the last event it wrote is \<^verbatim>\<open>error\<close>.\<close>

definition ends_errored :: "turn_result \<Rightarrow> bool" where
  "ends_errored r =
     (case rev (written (res_after r)) of [] \<Rightarrow> False | e # _ \<Rightarrow> is_error_ev e)"

text \<open>
  The value of \<^verbatim>\<open>accumulated\<close> after the first-pass loop, as a fold of its own, and the
  \<^verbatim>\<open>tool_calls\<close> the handler reads from it (\<^verbatim>\<open>accumulated?.tool_calls\<close>).
\<close>

fun accumulate :: "(chunk \<Rightarrow> chunk \<Rightarrow> chunk) \<Rightarrow> chunk option \<Rightarrow> chunk list \<Rightarrow> chunk option" where
  "accumulate concat_chunk acc [] = acc"
| "accumulate concat_chunk acc (c # cs) =
     accumulate concat_chunk
       (Some (case acc of None \<Rightarrow> c | Some a \<Rightarrow> concat_chunk a c)) cs"

definition accumulated_tool_calls :: "(chunk \<Rightarrow> chunk \<Rightarrow> chunk) \<Rightarrow> chunk list \<Rightarrow> tool_call list" where
  "accumulated_tool_calls concat_chunk chunks =
     (case accumulate concat_chunk None chunks of None \<Rightarrow> [] | Some a \<Rightarrow> tool_calls a)"

section \<open>Stage-1 wire format: \<^verbatim>\<open>sendSSEEvent\<close> as text\<close>

text \<open>
  The object \<^verbatim>\<open>{ type, ...data }\<close> that \<^verbatim>\<open>sendSSEEvent\<close> serialises for each event.
\<close>

fun event_json :: "turn_event \<Rightarrow> jsval" where
  "event_json (Session_ev sessionId) =
     JObj [(''type'', JStr ''session''), (''sessionId'', JStr sessionId)]"
| "event_json (Token_ev c) = JObj [(''type'', JStr ''token''), (''content'', JStr c)]"
| "event_json (Tool_executing_ev tools) =
     JObj [(''type'', JStr ''tool_executing''), (''tools'', JArr (map JStr tools))]"
| "event_json (Tool_result_ev t r) =
     JObj [(''type'', JStr ''tool_result''), (''tool'', JStr t), (''result'', JStr r)]"
| "event_json (Tool_error_ev t e) =
     JObj [(''type'', JStr ''tool_error''), (''tool'', JStr t), (''error'', JStr e)]"
| "event_json (Error_ev m) = JObj [(''type'', JStr ''error''), (''message'', JStr m)]"
| "event_json Done_ev = JObj [(''type'', JStr ''done'')]"

text \<open>
  The text \<^verbatim>\<open>res.write\<close> receives: \<^verbatim>\<open>`data: ${payload}\n\n`\<close>. \<^verbatim>\<open>JSON.stringify\<close> belongs
  to the runtime and is the parameter \<open>stringify\<close>.
\<close>

definition sse_frame :: "(jsval \<Rightarrow> string) \<Rightarrow> turn_event \<Rightarrow> string" where
  "sse_frame stringify ev = ''data: '' @ stringify (event_json ev) @ [CHR 0x0A, CHR 0x0A]"

definition sse_wire :: "(jsval \<Rightarrow> string) \<Rightarrow> turn_event list \<Rightarrow> string" where
  "sse_wire stringify evs = concat (map (sse_frame stringify) evs)"

section \<open>Protocol bridge: \<^verbatim>\<open>client/src/app/api/chat/route.ts\<close>\<close>

text \<open>\<^verbatim>\<open>buffer.split('\n')\<close>: never empty; the last element is what follows the last newline.\<close>

fun split_nl :: "string \<Rightarrow> string list" where
  "split_nl [] = [[]]"
| "split_nl (c # cs) =
     (if c = CHR 0x0A then [] # split_nl cs
      else (case split_nl cs of
              [] \<Rightarrow> [[c]]
            | l # ls \<Rightarrow> (c # l) # ls))"

text \<open>
  \<^verbatim>\<open>event.key\<close> on a parsed value that is not \<^verbatim>\<open>null\<close>: \<open>None\<close> is \<^verbatim>\<open>undefined\<close>, which
  is what a missing property and any property of a number, a boolean, a string or an array
  named here give.
\<close>

fun get_prop :: "jsval \<Rightarrow> string \<Rightarrow> jsval option" where
  "get_prop (JObj ps) k = map_of ps k"
| "get_prop _ k = None"

text \<open>
  \<^verbatim>\<open>JSON.stringify(v)\<close> inside a template literal, for a \<open>v\<close> that may be \<^verbatim>\<open>undefined\<close>.
\<close>

definition stringify_in_template :: "(jsval \<Rightarrow> string) \<Rightarrow> jsval option \<Rightarrow> string" where
  "stringify_in_template stringify v =
     (case v of None \<Rightarrow> ''undefined'' | Some x \<Rightarrow> stringify x)"

text \<open>
  An object literal \<^verbatim>\<open>{ type: t, k1: v1, ... }\<close> under \<^verbatim>\<open>JSON.stringify\<close>: a property whose
  value is \<^verbatim>\<open>undefined\<close> is left out.
\<close>

definition annotation :: "string \<Rightarrow> (string \<times> jsval option) list \<Rightarrow> jsval" where
  "annotation t kvs =
     JArr [JObj ((''type'', JStr t) #
             concat (map (\<lambda>(k, v). case v of None \<Rightarrow> [] | Some x \<Rightarrow> [(k, x)]) kvs))]"

text \<open>A text between double quotes.\<close>

definition quoted :: "string \<Rightarrow> string" where
  "quoted s = [CHR 0x22] @ s @ [CHR 0x22]"

text \<open>
  The finish part: \<^verbatim>\<open>d:{"finishReason":"stop","usage":{"promptTokens":0,"completionTokens":0}}\<close>
  and a newline.
\<close>

definition finish_line :: string where
  "finish_line =
     ''d:{'' @ quoted ''finishReason'' @ '':'' @ quoted ''stop'' @ '','' @ quoted ''usage''
     @ '':{'' @ quoted ''promptTokens'' @ '':0,'' @ quoted ''completionTokens'' @ '':0}}''
     @ [CHR 0x0A]"

text \<open>What the \<^verbatim>\<open>switch\<close> does with one parsed event.\<close>

datatype bridge_step = Nothing | Enqueue string | EnqueueAndClose string

text \<open>
  The body of the inner \<^verbatim>\<open>try\<close> after \<^verbatim>\<open>JSON.parse\<close>. \<^verbatim>\<open>event.type\<close> on \<^verbatim>\<open>null\<close>
  throws, and the \<^verbatim>\<open>catch\<close> skips the line, as it does when no \<^verbatim>\<open>case\<close> matches.
\<close>

definition bridge_event :: "(jsval \<Rightarrow> string) \<Rightarrow> jsval \<Rightarrow> bridge_step" where
  "bridge_event stringify event =
     (if event = JNull then Nothing
      else
        (let ty = get_prop event ''type'' in
         if ty = Some (JStr ''token'') then
           Enqueue (''0:'' @ stringify_in_template stringify (get_prop event ''content'') @ [CHR 0x0A])
         else if ty = Some (JStr ''tool_executing'') then
           Enqueue (''2:'' @ stringify (annotation ''tool_executing''
                                         [(''tools'', get_prop event ''tools'')]) @ [CHR 0x0A])
         else if ty = Some (JStr ''tool_result'') then
           Enqueue (''2:'' @ stringify (annotation ''tool_result''
                                         [(''tool'', get_prop event ''tool''),
                                          (''result'', get_prop event ''result'')]) @ [CHR 0x0A])
         else if ty = Some (JStr ''tool_error'') then
           Enqueue (''2:'' @ stringify (annotation ''tool_error''
                                         [(''tool'', get_prop event ''tool''),
                                          (''error'', get_prop event ''error'')]) @ [CHR 0x0A])
         else if ty = Some (JStr ''session'') then
           Enqueue (''2:'' @ stringify (annotation ''session''
                                         [(''sessionId'', get_prop event ''sessionId'')]) @ [CHR 0x0A])
         else if ty = Some (JStr ''error'') then
           Enqueue (''3:'' @ stringify
                      (case get_prop event ''message'' of
                         None \<Rightarrow> JStr ''Unknown error''
                       | Some JNull \<Rightarrow> JStr ''Unknown error''
                       | Some m \<Rightarrow> m) @ [CHR 0x0A])
         else if ty = Some (JStr ''done'') then EnqueueAndClose finish_line
         else Nothing))"

text \<open>
  The \<^verbatim>\<open>for (const line of lines)\<close> loop on the lines enqueued so far. \<^verbatim>\<open>JSON.parse\<close> is
  the parameter \<open>parse\<close>, \<open>None\<close> when it throws. The result says whether the loop left
  through the \<^verbatim>\<open>return\<close> of \<^verbatim>\<open>case 'done'\<close>, after \<^verbatim>\<open>controller.close()\<close>.
\<close>

fun process_lines ::
  "(string \<Rightarrow> jsval option) \<Rightarrow> (jsval \<Rightarrow> string) \<Rightarrow> string list \<Rightarrow> string list
     \<Rightarrow> string list \<times> bool" where
  "process_lines parse stringify [] out = (out, False)"
| "process_lines parse stringify (line # rest) out =
     (if take 6 line \<noteq> ''data: '' then process_lines parse stringify rest out
      else
        (case parse (drop 6 line) of
           None \<Rightarrow> process_lines parse stringify rest out
         | Some event \<Rightarrow>
             (case bridge_event stringify event of
                Nothing \<Rightarrow> process_lines parse stringify rest out
              | Enqueue l \<Rightarrow> process_lines parse stringify rest (out @ [l])
              | EnqueueAndClose l \<Rightarrow> (out @ [l], True))))"

text \<open>
  The \<^verbatim>\<open>while (true)\<close> loop over the values \<^verbatim>\<open>reader.read()\<close> delivers, already decoded,
  on \<^verbatim>\<open>buffer\<close> and the lines enqueued so far; the list ends where the reader reports
  \<^verbatim>\<open>done\<close>.
\<close>

fun read_loop ::
  "(string \<Rightarrow> jsval option) \<Rightarrow> (jsval \<Rightarrow> string) \<Rightarrow> string list \<Rightarrow> string \<Rightarrow> string list
     \<Rightarrow> string list \<times> bool" where
  "read_loop parse stringify [] buffer out = (out, False)"
| "read_loop parse stringify (v # rest) buffer out =
     (let lines = split_nl (buffer @ v);
          (out', returned) = process_lines parse stringify (butlast lines) out
      in if returned then (out', True)
         else read_loop parse stringify rest (last lines) out')"

text \<open>
  How the upstream body ends: the reader reports \<^verbatim>\<open>done\<close>, or \<^verbatim>\<open>reader.read()\<close> throws
  (the message is the one the outer \<^verbatim>\<open>catch\<close> computes).
\<close>

datatype upstream_end = EndOfStream | ReadError string

text \<open>The stream the bridge returns: the lines enqueued and whether it was closed.\<close>

record bridge_output =
  enqueued :: "string list"
  closed :: bool

text \<open>
  The \<^verbatim>\<open>start(controller)\<close> function of the \<^verbatim>\<open>ReadableStream\<close> that \<^verbatim>\<open>POST\<close> returns
  once the backend has answered with a body. The reads are the decoded values of
  \<^verbatim>\<open>decoder.decode(value, { stream: true })\<close>.
\<close>

definition bridge_stream ::
  "(string \<Rightarrow> jsval option) \<Rightarrow> (jsval \<Rightarrow> string) \<Rightarrow> string list \<times> upstream_end
     \<Rightarrow> bridge_output" where
  "bridge_stream parse stringify upstream =
     (case upstream of (values, ending) \<Rightarrow>
        (let (out, returned) = read_loop parse stringify values [] [] in
         if returned then \<lparr>enqueued = out, closed = True\<rparr>
         else
           (case ending of
              EndOfStream \<Rightarrow> \<lparr>enqueued = out @ [finish_line], closed = True\<rparr>
            | ReadError msg \<Rightarrow>
                \<lparr>enqueued = out @ [''3:'' @ stringify (JStr msg) @ [CHR 0x0A]],
                 closed = True\<rparr>)))"

text \<open>The line the bridge enqueues for the frame of an event, when the frame parses back.\<close>

definition bridged :: "(jsval \<Rightarrow> string) \<Rightarrow> turn_event \<Rightarrow> string" where
  "bridged stringify ev =
     (case bridge_event stringify (event_json ev) of
        Nothing \<Rightarrow> []
      | Enqueue l \<Rightarrow> l
      | EnqueueAndClose l \<Rightarrow> l)"

text \<open>A text part is a line that starts with \<^verbatim>\<open>0:\<close>, a finish part one that starts with \<^verbatim>\<open>d:\<close>.\<close>

definition is_text_part :: "string \<Rightarrow> bool" where
  "is_text_part l = (take 2 l = ''0:'')"

definition is_finish_part :: "string \<Rightarrow> bool" where
  "is_finish_part l = (take 2 l = ''d:'')"

section \<open>An example JSON codec\<close>

text \<open>
  \<^verbatim>\<open>JSON.stringify\<close> and \<^verbatim>\<open>JSON.parse\<close> are parameters of the wire format and of the
  bridge. To evaluate them on concrete streams, here is a printer of compact JSON (it
  escapes the double quote, the backslash and the newline) and a parser for what it prints.
  The parser recurses on a list used as fuel; twice the input is enough, since every call
  but the first follows a consumed character.
\<close>

fun escape_char :: "char \<Rightarrow> string" where
  "escape_char c =
     (if c = CHR 0x22 then [CHR 0x5C, CHR 0x22]
      else if c = CHR 0x5C then [CHR 0x5C, CHR 0x5C]
      else if c = CHR 0x0A then [CHR 0x5C, CHR ''n'']
      else [c])"

definition json_string :: "string \<Rightarrow> string" where
  "json_string s = quoted (concat (map escape_char s))"

fun join :: "string \<Rightarrow> string list \<Rightarrow> string" where
  "join sep [] = []"
| "join sep [x] = x"
| "join sep (x # y # ys) = x @ sep @ join sep (y # ys)"

fun example_stringify :: "jsval \<Rightarrow> string" where
  "example_stringify JNull = ''null''"
| "example_stringify (JBool b) = (if b then ''true'' else ''false'')"
| "example_stringify (JNum n) = (if n < 0 then ''-'' else []) @ string_of_index (nat \<bar>n\<bar>)"
| "example_stringify (JStr s) = json_string s"
| "example_stringify (JArr xs) = ''['' @ join '','' (map example_stringify xs) @ '']''"
| "example_stringify (JObj ps) =
     ''{'' @ join '','' (map (\<lambda>(k, v). json_string k @ '':'' @ example_stringify v) ps) @ ''}''"

fun unescape :: "char \<Rightarrow> char option" where
  "unescape c =
     (if c = CHR 0x22 then Some (CHR 0x22)
      else if c = CHR 0x5C then Some (CHR 0x5C)
      else if c = CHR ''n'' then Some (CHR 0x0A)
      else None)"

fun parse_string_body :: "string \<Rightarrow> (string \<times> string) option" where
  "parse_string_body [] = None"
| "parse_string_body [c] = (if c = CHR 0x22 then Some ([], []) else None)"
| "parse_string_body (c # e # cs) =
     (if c = CHR 0x22 then Some ([], e # cs)
      else if c = CHR 0x5C then
        (case unescape e of
           None \<Rightarrow> None
         | Some d \<Rightarrow> map_option (\<lambda>(t, r). (d # t, r)) (parse_string_body cs))
      else map_option (\<lambda>(t, r). (c # t, r)) (parse_string_body (e # cs)))"

definition is_digit :: "char \<Rightarrow> bool" where
  "is_digit c = ((48::nat) \<le> of_char c \<and> of_char c \<le> (57::nat))"

fun parse_digits :: "string \<Rightarrow> nat \<Rightarrow> nat \<times> string" where
  "parse_digits [] acc = (acc, [])"
| "parse_digits (c # cs) acc =
     (if is_digit c then parse_digits cs (10 * acc + (of_char c - 48)) else (acc, c # cs))"

fun parse_val :: "'f list \<Rightarrow> string \<Rightarrow> (jsval \<times> string) option"
  and parse_elems :: "'f list \<Rightarrow> string \<Rightarrow> (jsval list \<times> string) option"
  and parse_members :: "'f list \<Rightarrow> string \<Rightarrow> ((string \<times> jsval) list \<times> string) option" where
  "parse_val [] s = None"
| "parse_val (f # fuel) s =
     (case s of
        [] \<Rightarrow> None
      | c # cs \<Rightarrow>
          if c = CHR 0x22 then map_option (\<lambda>(t, r). (JStr t, r)) (parse_string_body cs)
          else if c = CHR ''['' then
            (if take 1 cs = '']'' then Some (JArr [], drop 1 cs)
             else map_option (\<lambda>(xs, r). (JArr xs, r)) (parse_elems fuel cs))
          else if c = CHR ''{'' then
            (if take 1 cs = ''}'' then Some (JObj [], drop 1 cs)
             else map_option (\<lambda>(ps, r). (JObj ps, r)) (parse_members fuel cs))
          else if take 4 s = ''null'' then Some (JNull, drop 4 s)
          else if take 4 s = ''true'' then Some (JBool True, drop 4 s)
          else if take 5 s = ''false'' then Some (JBool False, drop 5 s)
          else if c = CHR ''-'' \<and> cs \<noteq> [] \<and> is_digit (hd cs) then
            (case parse_digits cs 0 of (k, r) \<Rightarrow> Some (JNum (- int k), r))
          else if is_digit c then
            (case parse_digits s 0 of (k, r) \<Rightarrow> Some (JNum (int k), r))
          else None)"
| "parse_elems [] s = None"
| "parse_elems (f # fuel) s =
     (case parse_val fuel s of
        None \<Rightarrow> None
      | Some (v, r) \<Rightarrow>
          if take 1 r = '','' then
            map_option (\<lambda>(xs, r'). (v # xs, r')) (parse_elems fuel (drop 1 r))
          else if take 1 r = '']'' then Some ([v], drop 1 r)
          else None)"
| "parse_members [] s = None"
| "parse_members (f # fuel) s =
     (if take 1 s \<noteq> [CHR 0x22] then None
      else
        (case parse_string_body (drop 1 s) of
           None \<Rightarrow> None
         | Some (k, r) \<Rightarrow>
             if take 1 r \<noteq> '':'' then None
             else
               (case parse_val fuel (drop 1 r) of
                  None \<Rightarrow> None
                | Some (v, r') \<Rightarrow>
                    if take 1 r' = '','' then
                      map_option (\<lambda>(ps, r''). ((k, v) # ps, r'')) (parse_members fuel (drop 1 r'))
                    else if take 1 r' = ''}'' then Some ([(k, v)], drop 1 r')
                    else None)))"

definition example_parse :: "string \<Rightarrow> jsval option" where
  "example_parse s =
     (case parse_val (s @ s) s of
        Some (v, []) \<Rightarrow> Some v
      | _ \<Rightarrow> None)"

text \<open>
  A well-formed sequence of events that ends in \<^verbatim>\<open>done\<close>, its wire text delivered in two
  reads that cut a frame in the middle, and an upstream that delivers two frames and the
  beginning of a third and then ends.
\<close>

definition example_events :: "turn_event list" where
  "example_events =
     [Session_ev ''s1'', Token_ev ''Key'', Tool_executing_ev [''list_documents''],
      Tool_result_ev ''list_documents'' ''none'', Token_ev '' points'', Done_ev]"

definition example_upstream :: "string list" where
  "example_upstream =
     [take 41 (sse_wire example_stringify example_events),
      drop 41 (sse_wire example_stringify example_events)]"

definition unfinished_upstream :: "string list" where
  "unfinished_upstream =
     [take 41 (sse_wire example_stringify [Session_ev ''s1'', Token_ev ''Key'']),
      drop 41 (sse_wire example_stringify [Session_ev ''s1'', Token_ev ''Key''])
      @ take 12 (sse_wire example_stringify [Done_ev])]"

section \<open>Example collaborators\<close>

text \<open>
  A merge of chunks that concatenates texts and tool calls, two tools (one returns, one
  throws), and chains whose first pass requests tools. They are the concrete inputs at
  which the statements below are evaluated.
\<close>

definition example_concat :: "chunk \<Rightarrow> chunk \<Rightarrow> chunk" where
  "example_concat a c =
     \<lparr>content = content a @ content c, tool_calls = tool_calls a @ tool_calls c\<rparr>"

definition list_documents :: tool where
  "list_documents =
     \<lparr>tool_name = ''list_documents'',
      invoke = (\<lambda>args. Inr ''No documents have been ingested yet.'')\<rparr>"

definition failing_tool :: tool where
  "failing_tool =
     \<lparr>tool_name = ''summarize_topic'', invoke = (\<lambda>args. Inl ''index unavailable'')\<rparr>"

definition call_missing :: tool_call where
  "call_missing = \<lparr>tc_id = Some ''call_a'', tc_name = ''lookup_order'', tc_args = []\<rparr>"

definition call_list :: tool_call where
  "call_list = \<lparr>tc_id = Some ''call_b'', tc_name = ''list_documents'', tc_args = []\<rparr>"

definition call_summarize :: tool_call where
  "call_summarize =
     \<lparr>tc_id = Some ''call_c'', tc_name = ''summarize_topic'',
      tc_args = [(''topic'', JStr ''pricing'')]\<rparr>"

text \<open>
  A chain whose first pass streams the given chunks and ends, whose synthesis pass streams
  two text chunks, and whose retriever returns a context block.
\<close>

definition example_chain :: "chunk list \<Rightarrow> chain" where
  "example_chain chunks =
     \<lparr>ragChain_stream = (\<lambda>question chat_history. (chunks, Finished)),
      chain_tools = [list_documents, failing_tool],
      llm_stream = (\<lambda>messages.
         ([\<lparr>content = ''No documents '', tool_calls = []\<rparr>,
           \<lparr>content = [], tool_calls = []\<rparr>,
           \<lparr>content = ''yet.'', tool_calls = []\<rparr>], Finished)),
      contextRetriever = (\<lambda>question. Inr ''[Document 1]'')\<rparr>"

definition text_chunk :: "string \<Rightarrow> chunk" where
  "text_chunk t = \<lparr>content = t, tool_calls = []\<rparr>"

definition call_chunk :: "tool_call list \<Rightarrow> chunk" where
  "call_chunk tcs = \<lparr>content = [], tool_calls = tcs\<rparr>"

text \<open>
  The same chain with a first pass that yields one chunk of text and then throws, as a
  generation call that fails in mid-stream does.
\<close>

definition failing_chain :: chain where
  "failing_chain =
     (example_chain [])\<lparr>ragChain_stream :=
        (\<lambda>question chat_history. ([\<lparr>content = ''Key'', tool_calls = []\<rparr>], Failed ''socket hang up''))\<rparr>"

text \<open>
  A turn of a new session on a new manager, with the example chain streaming the given
  chunks in the first pass; and the same turn on the failing chain.
\<close>

definition example_turn :: "chunk list \<Rightarrow> turn_result" where
  "example_turn chunks =
     chat_turn (Inr (example_chain chunks)) example_concat 5 new_manager
       ''What documents are there?'' ''s1'' JNull"

definition failing_turn :: turn_result where
  "failing_turn =
     chat_turn (Inr failing_chain) example_concat 5 new_manager
       ''What documents are there?'' ''s1'' JNull"

text \<open>A run of eleven calls, one more than the bound the constructor sets.\<close>

definition eleven_calls :: "(string \<times> bool \<times> nat) list" where
  "eleven_calls =
     [(''q1'', True, 1), (''a1'', False, 2), (''q2'', True, 3), (''a2'', False, 4),
      (''q3'', True, 5), (''a3'', False, 6), (''q4'', True, 7), (''a4'', False, 8),
      (''q5'', True, 9), (''a5'', False, 10), (''q6'', True, 11)]"


section \<open>Properties of the session store\<close>

lemma fold_snoc: "fold (\<lambda>msg h. h @ [msg]) xs acc = acc @ xs"
  by (induction xs arbitrary: acc) simp_all

lemma maxMessages_addMessage:
  "maxMessagesPerSession (addMessage cm sid c u now) = maxMessagesPerSession cm"
  by (simp add: addMessage_def getOrCreateSession_def history_addMessage_def
      applyMessageWindowing_def Let_def split: option.splits)

lemma getOrCreateSession_exists:
  "sessions (snd (getOrCreateSession cm sid now)) sid \<noteq> None"
  by (simp add: getOrCreateSession_def split: option.splits)

lemma stored_getOrCreateSession:
  "stored_messages (snd (getOrCreateSession cm sid now)) sid = stored_messages cm sid"
  by (simp add: getOrCreateSession_def stored_messages_def split: option.splits)

lemma maxMessages_getOrCreateSession:
  "maxMessagesPerSession (snd (getOrCreateSession cm sid now)) = maxMessagesPerSession cm"
  by (simp add: getOrCreateSession_def split: option.splits)

lemma stored_history_addMessage:
  "sessions cm sid \<noteq> None \<Longrightarrow>
   stored_messages (history_addMessage cm sid m) sid = stored_messages cm sid @ [m]"
  by (auto simp: history_addMessage_def stored_messages_def)

lemma maxMessages_history_addMessage:
  "maxMessagesPerSession (history_addMessage cm sid m) = maxMessagesPerSession cm"
  by (simp add: history_addMessage_def split: option.splits)

lemma stored_applyMessageWindowing:
  "stored_messages (applyMessageWindowing cm sid) sid =
     (if length (stored_messages cm sid) > maxMessagesPerSession cm
      then slice_last (maxMessagesPerSession cm) (stored_messages cm sid)
      else stored_messages cm sid)"
  by (simp add: applyMessageWindowing_def stored_messages_def Let_def fold_snoc
      split: option.splits)

lemma stored_addMessage:
  "stored_messages (addMessage cm sid c u now) sid =
     (let h = stored_messages cm sid @ [appended (c, u, now)] in
      if length h > maxMessagesPerSession cm then slice_last (maxMessagesPerSession cm) h else h)"
  by (simp add: addMessage_def Let_def stored_applyMessageWindowing
      stored_history_addMessage getOrCreateSession_exists stored_getOrCreateSession
      maxMessages_history_addMessage maxMessages_getOrCreateSession appended_def)

lemma drop_drop_app: "k \<le> length h \<Longrightarrow> drop m (drop k h @ ys) = drop (m + k) (h @ ys)"
  by (simp add: add.commute)

lemma maxMessages_addMessages:
  "maxMessagesPerSession (addMessages cm sid calls) = maxMessagesPerSession cm"
  by (induction cm sid calls rule: addMessages.induct) (simp_all add: maxMessages_addMessage)

lemma stored_addMessages:
  "0 < maxMessagesPerSession cm \<Longrightarrow>
   length (stored_messages cm sid) \<le> maxMessagesPerSession cm \<Longrightarrow>
   stored_messages (addMessages cm sid calls) sid =
     drop (length (stored_messages cm sid) + length calls - maxMessagesPerSession cm)
       (stored_messages cm sid @ map appended calls)"
proof (induction cm sid calls rule: addMessages.induct)
  case (1 cm sid)
  then show ?case by simp
next
  case (2 cm sid c u now calls)
  let ?W = "maxMessagesPerSession cm"
  let ?h = "stored_messages cm sid @ [appended (c, u, now)]"
  let ?cm' = "addMessage cm sid c u now"
  have st: "stored_messages ?cm' sid = drop (length ?h - ?W) ?h"
    using 2(2) by (simp add: stored_addMessage slice_last_def Let_def)
  have len: "length (stored_messages ?cm' sid) \<le> ?W"
    using 2(2,3) by (simp add: st)
  have "stored_messages (addMessages ?cm' sid calls) sid =
        drop (length (stored_messages ?cm' sid) + length calls - ?W)
          (stored_messages ?cm' sid @ map appended calls)"
    using 2(1)[unfolded maxMessages_addMessage, OF 2(2) len] .
  also have "\<dots> = drop (length (stored_messages ?cm' sid) + length calls - ?W + (length ?h - ?W))
          (?h @ map appended calls)"
    unfolding st by (rule drop_drop_app) simp
  also have "length (stored_messages ?cm' sid) + length calls - ?W + (length ?h - ?W)
        = length (stored_messages cm sid) + length ((c,u,now) # calls) - ?W"
    using 2(2,3) unfolding st by (cases "length (stored_messages cm sid) = ?W") auto
  finally show ?case by simp
qed


lemma length_stored_addMessages:
  assumes "0 < maxMessagesPerSession cm"
    and "length (stored_messages cm sid) \<le> maxMessagesPerSession cm"
  shows "length (stored_messages (addMessages cm sid calls) sid) \<le> maxMessagesPerSession cm"
  using assms by (simp add: stored_addMessages)

text \<open>
  C5. On a session that holds no message yet, after \<open>N\<close> calls of \<^verbatim>\<open>addMessage\<close> under a
  positive bound \<open>W = maxMessagesPerSession\<close> (the constructor sets \<open>10\<close> and nothing
  changes it), the session holds exactly the last \<open>W\<close> of the appended messages in append
  order, their number is \<open>min N W\<close>, and after each of the \<open>N\<close> calls the length is at
  most \<open>W\<close>.
\<close>

theorem windowing_last_W:
  assumes "0 < maxMessagesPerSession cm"
    and "stored_messages cm sid = []"
  shows "stored_messages (addMessages cm sid calls) sid =
           drop (length calls - maxMessagesPerSession cm) (map appended calls)
         \<and> length (stored_messages (addMessages cm sid calls) sid) =
           min (length calls) (maxMessagesPerSession cm)
         \<and> list_all (\<lambda>k. length (stored_messages (addMessages cm sid (take k calls)) sid)
                          \<le> maxMessagesPerSession cm) [0..<Suc (length calls)]"
proof -
  have inv: "length (stored_messages cm sid) \<le> maxMessagesPerSession cm"
    using assms by simp
  have eq: "stored_messages (addMessages cm sid calls) sid =
           drop (length calls - maxMessagesPerSession cm) (map appended calls)"
    using stored_addMessages [OF assms(1) inv, of calls] assms(2) by simp
  have len: "length (stored_messages (addMessages cm sid calls) sid) =
           min (length calls) (maxMessagesPerSession cm)"
    unfolding eq by simp
  have "\<And>k. length (stored_messages (addMessages cm sid (take k calls)) sid)
               \<le> maxMessagesPerSession cm"
    by (rule length_stored_addMessages [OF assms(1) inv])
  then show ?thesis using eq len by (simp add: list_all_iff)
qed

theorem windowing_last_W_witness:
  "0 < maxMessagesPerSession new_manager
   \<and> stored_messages new_manager ''s1'' = []
   \<and> stored_messages (addMessages new_manager ''s1'' eleven_calls) ''s1'' =
       [AIMessage ''a1'' [], HumanMessage ''q2'', AIMessage ''a2'' [], HumanMessage ''q3'',
        AIMessage ''a3'' [], HumanMessage ''q4'', AIMessage ''a4'' [], HumanMessage ''q5'',
        AIMessage ''a5'' [], HumanMessage ''q6'']
   \<and> length (stored_messages (addMessages new_manager ''s1'' eleven_calls) ''s1'') = 10"
proof -
  have a: "0 < maxMessagesPerSession new_manager"
    by (simp add: new_manager_def)
  have b: "stored_messages new_manager ''s1'' = []"
    by (simp add: new_manager_def stored_messages_def)
  show ?thesis
    using windowing_last_W [OF a b, of eleven_calls] a b
    by (simp add: new_manager_def eleven_calls_def appended_def)
qed

text \<open>
  C9. Clearing a session twice leaves the manager exactly as clearing it once, and clearing
  an id that has no session leaves the manager as it is; \<open>clearSession\<close> has no failing
  path.
\<close>

theorem clearSession_idempotent:
  "clearSession (clearSession cm sid) sid = clearSession cm sid
   \<and> (sessions cm sid = None \<longrightarrow> clearSession cm sid = cm)
   \<and> sessions (clearSession cm sid) sid = None"
  by (simp add: clearSession_def)

theorem clearSession_idempotent_witness:
  "sessions new_manager ''never-seen'' = None
   \<and> clearSession new_manager ''never-seen'' = new_manager
   \<and> clearSession (clearSession (addMessage new_manager ''s1'' ''hello'' True 5) ''s1'') ''s1''
       = clearSession (addMessage new_manager ''s1'' ''hello'' True 5) ''s1''"
  using clearSession_idempotent [of new_manager "''never-seen''"]
    clearSession_idempotent [of "addMessage new_manager ''s1'' ''hello'' True 5" "''s1''"]
  by (simp add: new_manager_def)

text \<open>
  C10. \<open>getSessionContext\<close> never changes the manager, and for an id with no session it
  returns \<^verbatim>\<open>null\<close>; \<open>getOrCreateSession\<close> and \<open>getMessages\<close> on such an id return no
  message and leave a new, empty session under the id.
\<close>

theorem getSessionContext_pure:
  "snd (getSessionContext cm other) = cm
   \<and> (sessions cm sid = None \<longrightarrow>
        getSessionContext cm sid = (JNull, cm)
        \<and> fst (getOrCreateSession cm sid now) = []
        \<and> sessions (snd (getOrCreateSession cm sid now)) sid =
            Some \<lparr>history = [], lastAccessed = now, session_context = JNull\<rparr>
        \<and> fst (getMessages cm sid limit now) = []
        \<and> sessions (snd (getMessages cm sid limit now)) sid =
            Some \<lparr>history = [], lastAccessed = now, session_context = JNull\<rparr>)"
  by (simp add: getSessionContext_def getOrCreateSession_def getMessages_def slice_last_def
      split: option.splits)

theorem getSessionContext_pure_witness:
  "sessions new_manager ''s1'' = None
   \<and> getSessionContext new_manager ''s1'' = (JNull, new_manager)
   \<and> sessions (snd (getOrCreateSession new_manager ''s1'' 7)) ''s1'' =
       Some \<lparr>history = [], lastAccessed = 7, session_context = JNull\<rparr>
   \<and> sessions (snd (getMessages new_manager ''s1'' None 7)) ''s1'' =
       Some \<lparr>history = [], lastAccessed = 7, session_context = JNull\<rparr>"
  using getSessionContext_pure [of new_manager "''s1''" "''s1''" 7 None]
  by (simp add: new_manager_def)

section \<open>Properties of a turn\<close>

lemma first_pass_loop_eq:
  "first_pass_loop cc cs (acc, tp, r) =
     (accumulate cc acc cs, tp @ chunk_texts cs,
      r\<lparr>written := written r @ map Token_ev (chunk_texts cs)\<rparr>)"
  by (induction cs arbitrary: acc tp r)
     (simp_all add: chunk_texts_def Let_def sendSSEEvent_def)

lemma synthesis_loop_eq:
  "synthesis_loop cs (parts, r) =
     (parts @ synthesis_texts cs, r\<lparr>written := written r @ map Token_ev (synthesis_texts cs)\<rparr>)"
  by (induction cs arbitrary: parts r)
     (simp_all add: synthesis_texts_def Let_def sendSSEEvent_def)

lemma tool_loop_Cons:
  "tool_loop tools ctx (tc # rest) (results, r) =
     tool_loop tools ctx rest
       (results @ fst (tool_round tools ctx tc), sendSSEEvent r (snd (tool_round tools ctx tc)))"
  by (simp add: tool_round_def split: option.splits sum.splits)

lemma tool_loop_eq:
  "tool_loop tools ctx tcs (results, r) =
     (results @ concat (map (\<lambda>tc. fst (tool_round tools ctx tc)) tcs),
      r\<lparr>written := written r @ map (\<lambda>tc. snd (tool_round tools ctx tc)) tcs\<rparr>)"
proof (induction tcs arbitrary: results r)
  case Nil
  then show ?case by simp
next
  case (Cons tc rest)
  show ?case
    unfolding tool_loop_Cons Cons.IH by (simp add: sendSSEEvent_def)
qed

lemma tool_round_outcome: "is_tool_outcome (snd (tool_round tools ctx tc))"
  by (simp add: tool_round_def split: option.splits sum.splits)

lemma tool_round_result:
  "fst (tool_round tools ctx tc) \<noteq> [] \<longleftrightarrow> is_tool_result (snd (tool_round tools ctx tc))"
  by (simp add: tool_round_def split: option.splits sum.splits)


lemma stored_setSessionContext:
  "stored_messages (setSessionContext cm sid ctx now) sid = stored_messages cm sid"
  by (simp add: setSessionContext_def getOrCreateSession_def stored_messages_def Let_def
      split: option.splits)

lemma getMessages_None:
  "getMessages cm sid None now = getOrCreateSession cm sid now"
  by (simp add: getMessages_def split: prod.splits)

lemma fst_getOrCreateSession:
  "fst (getOrCreateSession cm sid now) = stored_messages cm sid"
  by (simp add: getOrCreateSession_def stored_messages_def split: option.splits)

lemma fst_begin_turn:
  "fst (begin_turn now cm0 msg sid ctx) = stored_messages cm0 sid @ [HumanMessage msg]"
  by (simp add: begin_turn_def Let_def getMessages_None split_beta fst_getOrCreateSession
      stored_setSessionContext)

lemma last_slice_last:
  assumes "xs \<noteq> []"
  shows "slice_last n xs \<noteq> [] \<and> last (slice_last n xs) = last xs"
proof (cases "n = 0")
  case True
  then show ?thesis using assms by (simp add: slice_last_def)
next
  case False
  have "length xs - n < length xs"
    using assms False by (cases xs) auto
  then show ?thesis using False by (simp add: slice_last_def)
qed

lemma last_stored_addMessage:
  "stored_messages (addMessage cm sid c u now) sid \<noteq> [] \<and>
   last (stored_messages (addMessage cm sid c u now) sid) = appended (c, u, now)"
  using last_slice_last [of "stored_messages cm sid @ [appended (c, u, now)]" "maxMessagesPerSession cm"]
  by (simp add: stored_addMessage Let_def)


lemma finish_turn_simps:
  "written (res_after (finish_turn r cm calls sid saved now)) = written r @ [Done_ev]"
  "ended (res_after (finish_turn r cm calls sid saved now)) = True"
  "generation_calls (finish_turn r cm calls sid saved now) = calls"
  "stored_messages (store_after (finish_turn r cm calls sid saved now)) sid \<noteq> []"
  "last (stored_messages (store_after (finish_turn r cm calls sid saved now)) sid) = AIMessage saved []"
  using last_stored_addMessage [of cm sid saved False now]
  by (simp_all add: finish_turn_def Let_def sendSSEEvent_def res_end_def getMessages_None
      stored_getOrCreateSession appended_def)

lemma catch_error_simps:
  "written (res_after (catch_error r cm calls e)) = written r @ [Error_ev e]"
  "ended (res_after (catch_error r cm calls e)) = True"
  "generation_calls (catch_error r cm calls e) = calls"
  "store_after (catch_error r cm calls e) = cm"
  by (simp_all add: catch_error_def sendSSEEvent_def res_end_def)

lemma tokens_simps:
  "tokens [] = []"
  "tokens (Session_ev s # evs) = tokens evs"
  "tokens (Token_ev t # evs) = t # tokens evs"
  "tokens (Tool_executing_ev ns # evs) = tokens evs"
  "tokens (Done_ev # evs) = tokens evs"
  "tokens (Error_ev e # evs) = tokens evs"
  by (simp_all add: tokens_def List.map_filter_simps)

lemma tokens_append: "tokens (xs @ ys) = tokens xs @ tokens ys"
  by (simp add: tokens_def List.map_filter_def)

lemma tokens_map_Token: "tokens (map Token_ev ts) = ts"
  by (induction ts) (simp_all add: tokens_simps)

lemma tokens_kinds:
  "filter is_tool_executing (map Token_ev ts) = []"
  "filter is_tool_outcome (map Token_ev ts) = []"
  "filter is_tool_result (map Token_ev ts) = []"
  by (induction ts) simp_all

lemma outcome_kinds:
  "is_tool_outcome e \<Longrightarrow>
     \<not> is_error_ev e \<and> \<not> is_done e \<and> \<not> is_tool_executing e \<and> token_content e = None"
  by (cases e) simp_all

lemma executeToolCallsWithSSE_eq:
  "executeToolCallsWithSSE cm tcs tools r sid =
     (concat (map (\<lambda>tc. fst (tool_round tools (fst (getSessionContext cm sid)) tc)) tcs),
      r\<lparr>written := written r
            @ map (\<lambda>tc. snd (tool_round tools (fst (getSessionContext cm sid)) tc)) tcs\<rparr>)"
  by (simp add: executeToolCallsWithSSE_def Let_def tool_loop_eq)







lemma ends_errored_iff:
  "ends_errored r \<longleftrightarrow>
     written (res_after r) \<noteq> [] \<and> is_error_ev (last (written (res_after r)))"
  by (cases "written (res_after r)" rule: rev_cases) (simp_all add: ends_errored_def)


lemma rounds_results:
  "concat (map (\<lambda>tc. fst (tool_round tools c tc)) tcs) \<noteq> [] \<longleftrightarrow>
   filter is_tool_result (map (\<lambda>tc. snd (tool_round tools c tc)) tcs) \<noteq> []"
  by (induction tcs) (auto simp: tool_round_result)

lemma rounds_kinds:
  "filter is_tool_executing (map (\<lambda>tc. snd (tool_round tools c tc)) tcs) = []"
  "tokens (map (\<lambda>tc. snd (tool_round tools c tc)) tcs) = []"
  "filter is_error_ev (map (\<lambda>tc. snd (tool_round tools c tc)) tcs) = []"
  using outcome_kinds [OF tool_round_outcome]
  by (induction tcs) (simp_all add: tokens_def List.map_filter_simps)

lemma tool_turn_shape:
  assumes "getChain = Inr ch"
    and "ragChain_stream ch msg (stored_messages cm0 sid @ [HumanMessage msg])
           = (chunks, Finished)"
    and "accumulated_tool_calls cc chunks \<noteq> []"
  shows "\<exists>T2 fin.
      written (res_after (chat_turn getChain cc now cm0 msg sid ctx)) =
        Session_ev sid # map Token_ev (chunk_texts chunks)
        @ Tool_executing_ev (map tc_name (accumulated_tool_calls cc chunks))
        # map (\<lambda>tc. snd (tool_round (chain_tools ch)
              (fst (getSessionContext (snd (begin_turn now cm0 msg sid ctx)) sid)) tc))
            (accumulated_tool_calls cc chunks)
        @ map Token_ev T2 @ [fin]
      \<and> (is_error_ev fin \<or>
           fin = Done_ev
           \<and> stored_messages (store_after (chat_turn getChain cc now cm0 msg sid ctx)) sid \<noteq> []
           \<and> (concat (map (\<lambda>tc. fst (tool_round (chain_tools ch)
                  (fst (getSessionContext (snd (begin_turn now cm0 msg sid ctx)) sid)) tc))
                (accumulated_tool_calls cc chunks)) \<noteq> [] \<longrightarrow>
               last (stored_messages (store_after (chat_turn getChain cc now cm0 msg sid ctx)) sid)
                 = AIMessage (concat T2) []))"
proof -
  obtain cm3 where bt:
    "begin_turn now cm0 msg sid ctx = (stored_messages cm0 sid @ [HumanMessage msg], cm3)"
    using fst_begin_turn [of now cm0 msg sid ctx] by (cases "begin_turn now cm0 msg sid ctx") simp
  define tcs where "tcs = accumulated_tool_calls cc chunks"
  define R where
    "R = concat (map (\<lambda>tc. fst (tool_round (chain_tools ch) (fst (getSessionContext cm3 sid)) tc)) tcs)"
  define TE where
    "TE = map (\<lambda>tc. snd (tool_round (chain_tools ch) (fst (getSessionContext cm3 sid)) tc)) tcs"
  define r4 where
    "r4 = \<lparr>written = Session_ev sid # map Token_ev (chunk_texts chunks)
             @ Tool_executing_ev (map tc_name tcs) # TE, ended = False\<rparr>"
  define calls1 where "calls1 = [RagChainStream msg (stored_messages cm0 sid @ [HumanMessage msg])]"
  define msgs where "msgs = (\<lambda>rc. synthesisMessages rc (stored_messages cm0 sid @ [HumanMessage msg]) msg tcs R)"
  have acc: "(case accumulate cc None chunks of None \<Rightarrow> [] | Some a \<Rightarrow> tool_calls a) = tcs"
    by (simp add: tcs_def accumulated_tool_calls_def)
  have ne: "tcs \<noteq> []"
    using assms(3) by (simp add: tcs_def)
  have ex: "executeToolCallsWithSSE cm3 tcs (chain_tools ch) r sid = (R, r\<lparr>written := written r @ TE\<rparr>)" for r
    by (simp add: executeToolCallsWithSSE_eq R_def TE_def)
  have ct: "chat_turn getChain cc now cm0 msg sid ctx =
      (if R \<noteq> [] then
         (case contextRetriever ch msg of
            Inl e \<Rightarrow> catch_error r4 cm3 calls1 e
          | Inr rc \<Rightarrow>
              (case snd (llm_stream ch (msgs rc)) of
                 Failed e \<Rightarrow>
                   catch_error
                     (r4\<lparr>written := written r4
                        @ map Token_ev (synthesis_texts (fst (llm_stream ch (msgs rc))))\<rparr>)
                     cm3 (calls1 @ [LlmStream (msgs rc)]) e
               | Finished \<Rightarrow>
                   finish_turn
                     (r4\<lparr>written := written r4
                        @ map Token_ev (synthesis_texts (fst (llm_stream ch (msgs rc))))\<rparr>)
                     cm3 (calls1 @ [LlmStream (msgs rc)]) sid
                     (concat (synthesis_texts (fst (llm_stream ch (msgs rc))))) now))
       else finish_turn r4 cm3 calls1 sid (concat (chunk_texts chunks)) now)"
    using assms(1,2) ne
    by (simp add: chat_turn_def bt Let_def first_pass_loop_eq acc ex sendSSEEvent_def split_beta
        synthesis_loop_eq r4_def calls1_def msgs_def
        split: sum.splits stream_end.splits)
  have goal: "\<exists>T2 fin.
      written (res_after (chat_turn getChain cc now cm0 msg sid ctx)) =
        Session_ev sid # map Token_ev (chunk_texts chunks)
        @ Tool_executing_ev (map tc_name tcs) # TE @ map Token_ev T2 @ [fin]
      \<and> (is_error_ev fin \<or>
           fin = Done_ev
           \<and> stored_messages (store_after (chat_turn getChain cc now cm0 msg sid ctx)) sid \<noteq> []
           \<and> (R \<noteq> [] \<longrightarrow>
               last (stored_messages (store_after (chat_turn getChain cc now cm0 msg sid ctx)) sid)
                 = AIMessage (concat T2) []))"
  proof (cases "R = []")
    case True
    show ?thesis
      unfolding ct using True
      by (intro exI [of _ "[]"] exI [of _ Done_ev]) (simp add: finish_turn_simps r4_def)
  next
    case False
    show ?thesis
    proof (cases "contextRetriever ch msg")
      case (Inl e)
      show ?thesis
        unfolding ct using False Inl
        by (intro exI [of _ "[]"] exI [of _ "Error_ev e"]) (simp add: catch_error_simps r4_def)
    next
      case (Inr rc)
      show ?thesis
      proof (cases "snd (llm_stream ch (msgs rc))")
        case Finished
        show ?thesis
          unfolding ct using False Inr Finished
          by (intro exI [of _ "synthesis_texts (fst (llm_stream ch (msgs rc)))"]
                exI [of _ Done_ev]) (simp add: finish_turn_simps r4_def)
      next
        case (Failed e)
        show ?thesis
          unfolding ct using False Inr Failed
          by (intro exI [of _ "synthesis_texts (fst (llm_stream ch (msgs rc)))"]
                exI [of _ "Error_ev e"]) (simp add: catch_error_simps r4_def)
      qed
    qed
  qed
  show ?thesis
    using goal unfolding R_def TE_def tcs_def bt by simp
qed


lemma takeWhile_tokens:
  "takeWhile (\<lambda>e. \<not> is_tool_executing e) (map Token_ev ts @ Tool_executing_ev n # rest)
     = map Token_ev ts"
  by (induction ts) simp_all

lemma dropWhile_tokens:
  "dropWhile (\<lambda>e. \<not> is_tool_executing e) (map Token_ev ts @ Tool_executing_ev n # rest)
     = Tool_executing_ev n # rest"
  by (induction ts) simp_all

lemma final_kinds:
  "is_error_ev fin \<or> fin = Done_ev \<Longrightarrow>
     \<not> is_tool_executing fin \<and> \<not> is_tool_result fin \<and> tokens [fin] = []"
  by (cases fin) (simp_all add: tokens_simps)

text \<open>The definitions unfolded to run the example turns.\<close>

lemmas ex_defs = example_turn_def failing_turn_def failing_chain_def example_chain_def
  example_concat_def text_chunk_def call_chunk_def call_missing_def call_list_def
  call_summarize_def list_documents_def failing_tool_def new_manager_def

lemmas run_defs = chat_turn_def begin_turn_def getMessages_def getOrCreateSession_def
  addMessage_def history_addMessage_def applyMessageWindowing_def sendSSEEvent_def
  res_end_def catch_error_def finish_turn_def executeToolCallsWithSSE_def
  getSessionContext_def synthesisMessages_def buildToolMessages_def buildToolMessage_def
  extractChunkContent_def stored_messages_def slice_last_def Let_def

lemmas obs_defs = accumulated_tool_calls_def ends_errored_def synthesis_tokens_def
  tokens_def List.map_filter_def

text \<open>
  What the handler does in a turn whose first pass ends with at least one accumulated tool
  call: exactly one \<^verbatim>\<open>tool_executing\<close> event is written, naming the requested tools, and
  no \<^verbatim>\<open>tool_result\<close> or \<^verbatim>\<open>tool_error\<close> event precedes it; and on the path where
  \<^verbatim>\<open>allToolResults\<close> is not empty (a \<^verbatim>\<open>tool_result\<close> event was written) and the turn
  does not end in \<^verbatim>\<open>error\<close>, the message appended last is the assistant message whose
  content is the concatenation of the synthesis-pass tokens.
\<close>

lemma tool_turn_events:
  assumes "getChain = Inr ch"
    and "ragChain_stream ch msg (stored_messages cm0 sid @ [HumanMessage msg])
           = (chunks, Finished)"
    and "accumulated_tool_calls cc chunks \<noteq> []"
  shows "filter is_tool_executing (written (res_after (chat_turn getChain cc now cm0 msg sid ctx)))
           = [Tool_executing_ev (map tc_name (accumulated_tool_calls cc chunks))]
       \<and> filter is_tool_outcome
            (takeWhile (\<lambda>e. \<not> is_tool_executing e)
               (written (res_after (chat_turn getChain cc now cm0 msg sid ctx)))) = []
       \<and> (filter is_tool_result (written (res_after (chat_turn getChain cc now cm0 msg sid ctx))) \<noteq> []
            \<and> \<not> ends_errored (chat_turn getChain cc now cm0 msg sid ctx) \<longrightarrow>
          stored_messages (store_after (chat_turn getChain cc now cm0 msg sid ctx)) sid \<noteq> []
          \<and> last (stored_messages (store_after (chat_turn getChain cc now cm0 msg sid ctx)) sid)
              = AIMessage
                  (concat (synthesis_tokens
                     (written (res_after (chat_turn getChain cc now cm0 msg sid ctx))))) [])"
proof -
  let ?r = "chat_turn getChain cc now cm0 msg sid ctx"
  let ?c = "fst (getSessionContext (snd (begin_turn now cm0 msg sid ctx)) sid)"
  let ?tcs = "accumulated_tool_calls cc chunks"
  let ?TE = "map (\<lambda>tc. snd (tool_round (chain_tools ch) ?c tc)) ?tcs"
  let ?R = "concat (map (\<lambda>tc. fst (tool_round (chain_tools ch) ?c tc)) ?tcs)"
  obtain T2 fin where
    evs: "written (res_after ?r) =
        Session_ev sid # map Token_ev (chunk_texts chunks)
        @ Tool_executing_ev (map tc_name ?tcs) # ?TE @ map Token_ev T2 @ [fin]"
    and fin: "is_error_ev fin \<or>
           fin = Done_ev
           \<and> stored_messages (store_after ?r) sid \<noteq> []
           \<and> (?R \<noteq> [] \<longrightarrow> last (stored_messages (store_after ?r) sid) = AIMessage (concat T2) [])"
    using tool_turn_shape [OF assms, of now ctx] by blast
  have fk: "\<not> is_tool_executing fin \<and> \<not> is_tool_result fin \<and> tokens [fin] = []"
    using fin by (intro final_kinds) blast
  have one: "filter is_tool_executing (written (res_after ?r))
               = [Tool_executing_ev (map tc_name ?tcs)]"
    by (simp add: evs rounds_kinds tokens_kinds fk)
  have before: "filter is_tool_outcome
            (takeWhile (\<lambda>e. \<not> is_tool_executing e) (written (res_after ?r))) = []"
    by (simp add: evs takeWhile_tokens tokens_kinds)
  have syn: "synthesis_tokens (written (res_after ?r)) = T2"
    by (simp add: evs synthesis_tokens_def dropWhile_tokens tokens_simps tokens_append
        rounds_kinds tokens_map_Token fk)
  have res: "filter is_tool_result (written (res_after ?r)) \<noteq> [] \<longleftrightarrow> ?R \<noteq> []"
    unfolding rounds_results by (simp add: evs tokens_kinds fk)
  have err: "ends_errored ?r \<longleftrightarrow> is_error_ev fin"
    by (simp add: ends_errored_iff evs)
  have persisted: "filter is_tool_result (written (res_after ?r)) \<noteq> [] \<and> \<not> ends_errored ?r \<longrightarrow>
          stored_messages (store_after ?r) sid \<noteq> []
          \<and> last (stored_messages (store_after ?r) sid)
              = AIMessage (concat (synthesis_tokens (written (res_after ?r)))) []"
    using fin unfolding res err syn by blast
  show ?thesis
    using one before persisted by blast
qed

lemma example_tool_turn:
  "accumulated_tool_calls example_concat
      [text_chunk ''Let me check.'', call_chunk [call_missing, call_list, call_summarize]] \<noteq> []
   \<and> filter is_tool_executing
        (written (res_after (example_turn
           [text_chunk ''Let me check.'', call_chunk [call_missing, call_list, call_summarize]])))
       = [Tool_executing_ev [''lookup_order'', ''list_documents'', ''summarize_topic'']]
   \<and> filter is_tool_result
        (written (res_after (example_turn
           [text_chunk ''Let me check.'', call_chunk [call_missing, call_list, call_summarize]])))
       = [Tool_result_ev ''list_documents'' ''No documents have been ingested yet.'']
   \<and> \<not> ends_errored (example_turn
           [text_chunk ''Let me check.'', call_chunk [call_missing, call_list, call_summarize]])
   \<and> synthesis_tokens
        (written (res_after (example_turn
           [text_chunk ''Let me check.'', call_chunk [call_missing, call_list, call_summarize]])))
       = [''No documents '', ''yet.'']
   \<and> last (stored_messages (store_after (example_turn
           [text_chunk ''Let me check.'', call_chunk [call_missing, call_list, call_summarize]]))
         ''s1'')
       = AIMessage ''No documents yet.'' []"
proof -
  let ?cs = "[text_chunk ''Let me check.'', call_chunk [call_missing, call_list, call_summarize]]"
  have h2: "ragChain_stream (example_chain ?cs) ''What documents are there?''
              (stored_messages new_manager ''s1'' @ [HumanMessage ''What documents are there?''])
            = (?cs, Finished)"
    by (simp add: example_chain_def)
  have h3: "accumulated_tool_calls example_concat ?cs \<noteq> []"
    by (simp add: ex_defs obs_defs)
  show ?thesis
    using tool_turn_events [OF refl h2 h3, of 5 JNull] h3
    by (simp add: ex_defs run_defs obs_defs)
qed

text \<open>
  C1, at a failing input. The first pass streams a text and one tool call, and the call
  names a tool that is not registered. One \<^verbatim>\<open>tool_executing\<close> event is written before
  the \<^verbatim>\<open>tool_error\<close> event, as the claim says. But the failed call leaves no result, so
  \<^verbatim>\<open>allToolResults\<close> is empty: no synthesis call is made, no synthesis token is written,
  and the answer stored is the first pass's text, not the concatenation of the synthesis
  tokens.
\<close>

theorem all_tools_failed_stores_first_pass:
  "accumulated_tool_calls example_concat
      [text_chunk ''Let me check.'', call_chunk [call_missing]] = [call_missing]
   \<and> written (res_after (example_turn [text_chunk ''Let me check.'', call_chunk [call_missing]]))
       = [Session_ev ''s1'', Token_ev ''Let me check.'', Tool_executing_ev [''lookup_order''],
          Tool_error_ev ''lookup_order''
            (''Tool '' @ [CHR 0x27] @ ''lookup_order'' @ [CHR 0x27] @ '' not found''),
          Done_ev]
   \<and> synthesis_tokens
        (written (res_after (example_turn [text_chunk ''Let me check.'', call_chunk [call_missing]])))
       = []
   \<and> filter is_llm_stream
        (generation_calls (example_turn [text_chunk ''Let me check.'', call_chunk [call_missing]]))
       = []
   \<and> last (stored_messages (store_after
          (example_turn [text_chunk ''Let me check.'', call_chunk [call_missing]])) ''s1'')
       = AIMessage ''Let me check.'' []
   \<and> last (stored_messages (store_after
          (example_turn [text_chunk ''Let me check.'', call_chunk [call_missing]])) ''s1'')
       \<noteq> AIMessage (concat (synthesis_tokens
            (written (res_after
               (example_turn [text_chunk ''Let me check.'', call_chunk [call_missing]]))))) []"
  by (simp add: ex_defs run_defs obs_defs)




text \<open>
  C8. In a turn whose first pass ends with no accumulated tool call, the events are the
  session event, one token per non-empty chunk text in stream order, and \<^verbatim>\<open>done\<close>; no
  tool event is written; exactly one generation call is made, the first-pass call, and none
  to \<^verbatim>\<open>llm.stream\<close>; and the last message of the session is the assistant message whose
  content is the concatenation of the token events. The first-pass call receives the
  question and the history that already holds the user's message.
\<close>

theorem no_tools_turn:
  assumes "getChain = Inr ch"
    and "ragChain_stream ch msg (stored_messages cm0 sid @ [HumanMessage msg])
           = (chunks, Finished)"
    and "accumulated_tool_calls cc chunks = []"
  shows "written (res_after (chat_turn getChain cc now cm0 msg sid ctx)) =
           Session_ev sid # map Token_ev (chunk_texts chunks) @ [Done_ev]
       \<and> filter is_tool_executing (written (res_after (chat_turn getChain cc now cm0 msg sid ctx))) = []
       \<and> filter is_tool_outcome (written (res_after (chat_turn getChain cc now cm0 msg sid ctx))) = []
       \<and> generation_calls (chat_turn getChain cc now cm0 msg sid ctx) =
           [RagChainStream msg (stored_messages cm0 sid @ [HumanMessage msg])]
       \<and> length (generation_calls (chat_turn getChain cc now cm0 msg sid ctx)) = 1
       \<and> filter is_llm_stream (generation_calls (chat_turn getChain cc now cm0 msg sid ctx)) = []
       \<and> stored_messages (store_after (chat_turn getChain cc now cm0 msg sid ctx)) sid \<noteq> []
       \<and> last (stored_messages (store_after (chat_turn getChain cc now cm0 msg sid ctx)) sid) =
           AIMessage
             (concat (tokens (written (res_after (chat_turn getChain cc now cm0 msg sid ctx))))) []"
proof -
  obtain cm3 where bt:
    "begin_turn now cm0 msg sid ctx = (stored_messages cm0 sid @ [HumanMessage msg], cm3)"
    using fst_begin_turn [of now cm0 msg sid ctx] by (cases "begin_turn now cm0 msg sid ctx") simp
  have ct: "chat_turn getChain cc now cm0 msg sid ctx =
      finish_turn (\<lparr>written = Session_ev sid # map Token_ev (chunk_texts chunks), ended = False\<rparr>)
        cm3 [RagChainStream msg (stored_messages cm0 sid @ [HumanMessage msg])] sid (concat (chunk_texts chunks)) now"
    using assms
    by (simp add: chat_turn_def bt Let_def first_pass_loop_eq sendSSEEvent_def
        accumulated_tool_calls_def)
  show ?thesis
    unfolding ct
    by (simp add: finish_turn_simps tokens_simps tokens_append tokens_map_Token tokens_kinds)
qed

theorem no_tools_turn_witness:
  "accumulated_tool_calls example_concat
      [text_chunk ''Key'', text_chunk '' points'', text_chunk [], text_chunk '' are...''] = []
   \<and> written (res_after (example_turn
        [text_chunk ''Key'', text_chunk '' points'', text_chunk [], text_chunk '' are...'']))
       = [Session_ev ''s1'', Token_ev ''Key'', Token_ev '' points'', Token_ev '' are...'', Done_ev]
   \<and> generation_calls (example_turn
        [text_chunk ''Key'', text_chunk '' points'', text_chunk [], text_chunk '' are...''])
       = [RagChainStream ''What documents are there?''
            [HumanMessage ''What documents are there?'']]
   \<and> filter is_llm_stream (generation_calls (example_turn
        [text_chunk ''Key'', text_chunk '' points'', text_chunk [], text_chunk '' are...'']))
       = []
   \<and> stored_messages (store_after (example_turn
        [text_chunk ''Key'', text_chunk '' points'', text_chunk [], text_chunk '' are...''])) ''s1''
       = [HumanMessage ''What documents are there?'', AIMessage ''Key points are...'' []]"
proof -
  let ?cs = "[text_chunk ''Key'', text_chunk '' points'', text_chunk [], text_chunk '' are...'']"
  have h2: "ragChain_stream (example_chain ?cs) ''What documents are there?''
              (stored_messages new_manager ''s1'' @ [HumanMessage ''What documents are there?''])
            = (?cs, Finished)"
    by (simp add: example_chain_def)
  have h3: "accumulated_tool_calls example_concat ?cs = []"
    by (simp add: ex_defs obs_defs)
  show ?thesis
    using no_tools_turn [OF refl h2 h3, of 5 JNull] h3
    by (simp add: ex_defs run_defs obs_defs)
qed

text \<open>
  What does hold of the tool loop and of \<open>buildToolMessages\<close>: the loop writes one
  \<^verbatim>\<open>tool_result\<close> or \<^verbatim>\<open>tool_error\<close> event per call, in call order, whatever the outcome
  of the calls before; there is one tool message per result; and a result with a non-empty
  \<^verbatim>\<open>error\<close> is rendered with the prefix \<^verbatim>\<open>Error: \<close>.
\<close>

lemma tool_loop_one_event_per_call:
  "written (snd (tool_loop tools ctx tcs (results, r))) =
     written r @ map (\<lambda>tc. snd (tool_round tools ctx tc)) tcs
   \<and> list_all is_tool_outcome (map (\<lambda>tc. snd (tool_round tools ctx tc)) tcs)"
  by (simp add: tool_loop_eq list_all_iff tool_round_outcome)

lemma length_buildToolMessages:
  "length (buildToolMessages toolResults toolCalls) = length toolResults"
  by (simp add: buildToolMessages_def)

lemma buildToolMessage_error:
  "tr_error result = Some e \<Longrightarrow> e \<noteq> [] \<Longrightarrow>
   buildToolMessage toolCalls (idx, result) =
     ToolMessage (''Error: '' @ e)
       (case (if idx < length toolCalls then tc_id (toolCalls ! idx) else None) of
          Some i \<Rightarrow> i
        | None \<Rightarrow> ''call_'' @ string_of_index idx)
       (tr_name result)"
  by (simp add: buildToolMessage_def)

text \<open>
  C3, at a failing input. Three calls are executed: the first names a tool that is not
  registered, the second succeeds, the third throws. All three are run and each failure
  writes its \<^verbatim>\<open>tool_error\<close> event, but the returned results hold the successful call
  only: no result carries the error text of a failed call.
\<close>

theorem failed_calls_leave_no_result:
  "executeToolCallsWithSSE new_manager [call_missing, call_list, call_summarize]
     [list_documents, failing_tool] \<lparr>written = [], ended = False\<rparr> ''s1''
   = ([\<lparr>tr_name = ''list_documents'', tr_result = Some ''No documents have been ingested yet.'',
        tr_error = None\<rparr>],
      \<lparr>written =
         [Tool_error_ev ''lookup_order''
            (''Tool '' @ [CHR 0x27] @ ''lookup_order'' @ [CHR 0x27] @ '' not found''),
          Tool_result_ev ''list_documents'' ''No documents have been ingested yet.'',
          Tool_error_ev ''summarize_topic'' ''index unavailable''],
       ended = False\<rparr>)"
  by (simp add: ex_defs run_defs)

text \<open>
  C4, at the same failing input. The one result answers the call with id \<open>call_b\<close>, and
  the tool message built for it carries \<open>call_a\<close>, the id of the call that failed: results
  are paired with calls by position, and a failed call has no position among the results.
\<close>

theorem tool_message_takes_id_by_position:
  "tc_id call_list = Some ''call_b''
   \<and> buildToolMessages
       (fst (executeToolCallsWithSSE new_manager [call_missing, call_list, call_summarize]
          [list_documents, failing_tool] \<lparr>written = [], ended = False\<rparr> ''s1''))
       [call_missing, call_list, call_summarize]
     = [ToolMessage ''No documents have been ingested yet.'' ''call_a'' ''list_documents'']"
  by (simp add: ex_defs run_defs)

section \<open>Properties of the bridge\<close>

lemma split_nl_nonempty: "split_nl xs \<noteq> []"
  by (induction xs) (simp_all split: list.splits)

lemma split_nl_no_newline: "CHR 0x0A \<notin> set xs \<Longrightarrow> split_nl xs = [xs]"
  by (induction xs) auto

lemma split_nl_line:
  "CHR 0x0A \<notin> set xs \<Longrightarrow> split_nl (xs @ CHR 0x0A # ys) = xs # split_nl ys"
  by (induction xs) auto

lemma last_split_nl_no_newline: "CHR 0x0A \<notin> set (last (split_nl xs))"
  by (induction xs) (auto simp: split_nl_nonempty split: list.splits)

lemma split_nl_append:
  "split_nl (a @ b) = butlast (split_nl a) @ split_nl (last (split_nl a) @ b)"
proof (induction a)
  case Nil
  then show ?case by simp
next
  case (Cons c a)
  show ?case
  proof (cases "c = CHR 0x0A")
    case True
    then show ?thesis using Cons by (simp add: split_nl_nonempty)
  next
    case False
    obtain l ls where sa: "split_nl a = l # ls"
      using split_nl_nonempty [of a] by (cases "split_nl a") auto
    show ?thesis
    proof (cases ls)
      case Nil
      then show ?thesis using False sa Cons by simp
    next
      case (Cons l' ls')
      then show ?thesis using False sa Cons.IH
        by (simp split: list.splits)
    qed
  qed
qed

lemma process_lines_append:
  "process_lines p s (ls1 @ ls2) out =
     (if snd (process_lines p s ls1 out) then process_lines p s ls1 out
      else process_lines p s ls2 (fst (process_lines p s ls1 out)))"
  by (induction ls1 arbitrary: out)
     (simp_all split: option.splits bridge_step.splits)

lemma read_loop_lines:
  "CHR 0x0A \<notin> set buf \<Longrightarrow>
   read_loop p s vs buf out = process_lines p s (butlast (split_nl (buf @ concat vs))) out"
proof (induction vs arbitrary: buf out)
  case Nil
  then show ?case by (simp add: split_nl_no_newline)
next
  case (Cons v rest)
  let ?lines = "split_nl (buf @ v)"
  have sp: "butlast (split_nl (buf @ concat (v # rest))) =
            butlast ?lines @ butlast (split_nl (last ?lines @ concat rest))"
    using split_nl_append [of "buf @ v" "concat rest"]
    by (simp add: butlast_append split_nl_nonempty)
  have ih: "read_loop p s rest (last ?lines) out' =
            process_lines p s (butlast (split_nl (last ?lines @ concat rest))) out'" for out'
    by (rule Cons.IH) (rule last_split_nl_no_newline)
  show ?case
    unfolding sp process_lines_append
    by (cases "process_lines p s (butlast ?lines) out") (simp add: ih Let_def)
qed


lemma frame_split:
  assumes "CHR 0x0A \<notin> set j"
  shows "split_nl ((''data: '' @ j @ [CHR 0x0A, CHR 0x0A]) @ rest) = (''data: '' @ j) # [] # split_nl rest"
proof -
  have a: "CHR 0x0A \<notin> set (''data: '' @ j)"
    using assms by simp
  have "split_nl ((''data: '' @ j) @ CHR 0x0A # (CHR 0x0A # rest)) = (''data: '' @ j) # split_nl (CHR 0x0A # rest)"
    by (rule split_nl_line [OF a])
  then show ?thesis by simp
qed

lemma wire_lines:
  "\<forall>e \<in> set evs. CHR 0x0A \<notin> set (stringify (event_json e)) \<Longrightarrow>
   split_nl (sse_wire stringify evs) =
     concat (map (\<lambda>e. [''data: '' @ stringify (event_json e), []]) evs) @ [[]]"
proof (induction evs)
  case Nil
  then show ?case by (simp add: sse_wire_def)
next
  case (Cons e evs)
  have nl: "CHR 0x0A \<notin> set (stringify (event_json e))"
    using Cons.prems by simp
  have "sse_wire stringify (e # evs) =
        (''data: '' @ stringify (event_json e) @ [CHR 0x0A, CHR 0x0A]) @ sse_wire stringify evs"
    by (simp add: sse_wire_def sse_frame_def)
  then show ?case
    using frame_split [OF nl, of "sse_wire stringify evs"] Cons by simp
qed

lemma bridge_event_frame:
  "e \<noteq> Done_ev \<Longrightarrow> bridge_event s (event_json e) = Enqueue (bridged s e)"
  by (cases e) (simp_all add: bridge_event_def bridged_def)

lemma bridge_event_done:
  "bridge_event s (event_json Done_ev) = EnqueueAndClose finish_line"
  "bridged s Done_ev = finish_line"
  by (simp_all add: bridge_event_def bridged_def)

lemma process_frame:
  assumes "p (s (event_json e)) = Some (event_json e)" and "e \<noteq> Done_ev"
  shows "process_lines p s ((''data: '' @ s (event_json e)) # [] # rest) out =
         process_lines p s rest (out @ [bridged s e])"
  using assms by (simp add: bridge_event_frame)

lemma process_done_frame:
  assumes "p (s (event_json Done_ev)) = Some (event_json Done_ev)"
  shows "process_lines p s ((''data: '' @ s (event_json Done_ev)) # rest) out =
         (out @ [finish_line], True)"
  using assms bridge_event_done(1) [of s] by simp

lemma process_frames:
  assumes "\<forall>e \<in> set body. p (s (event_json e)) = Some (event_json e)"
    and "Done_ev \<notin> set body"
  shows "process_lines p s (concat (map (\<lambda>e. [''data: '' @ s (event_json e), []]) body) @ rest) out =
         process_lines p s rest (out @ map (bridged s) body)"
  using assms
proof (induction body arbitrary: out)
  case Nil
  then show ?case by simp
next
  case (Cons e body)
  have a: "p (s (event_json e)) = Some (event_json e)" and b: "e \<noteq> Done_ev"
    using Cons.prems by auto
  have "process_lines p s (concat (map (\<lambda>e. [''data: '' @ s (event_json e), []]) (e # body)) @ rest) out
      = process_lines p s ((''data: '' @ s (event_json e)) # []
          # (concat (map (\<lambda>e. [''data: '' @ s (event_json e), []]) body) @ rest)) out"
    by simp
  also have "\<dots> = process_lines p s
        (concat (map (\<lambda>e. [''data: '' @ s (event_json e), []]) body) @ rest) (out @ [bridged s e])"
    by (rule process_frame [where p = p and s = s and e = e, OF a b])
  also have "\<dots> = process_lines p s rest ((out @ [bridged s e]) @ map (bridged s) body)"
    using Cons.prems by (intro Cons.IH) auto
  finally show ?case by simp
qed

lemma text_parts_of_bridged:
  "filter is_text_part (map (bridged s) evs) =
     map (\<lambda>t. ''0:'' @ s (JStr t) @ [CHR 0x0A]) (tokens evs)"
proof (induction evs)
  case Nil
  then show ?case by (simp add: tokens_def List.map_filter_simps)
next
  case (Cons e evs)
  then show ?case
    by (cases e)
       (simp_all add: tokens_def List.map_filter_simps bridged_def bridge_event_def
          is_text_part_def stringify_in_template_def finish_line_def)
qed

lemma finish_parts_of_bridged:
  "Done_ev \<notin> set body \<Longrightarrow> filter is_finish_part (map (bridged s) body) = []"
proof (induction body)
  case Nil
  then show ?case by simp
next
  case (Cons e body)
  then show ?case
    by (cases e) (simp_all add: bridged_def bridge_event_def is_finish_part_def)
qed

lemma finish_line_is_finish_part: "is_finish_part finish_line"
  by (simp add: is_finish_part_def finish_line_def)

lemma bridge_event_enqueue:
  "bridge_event s ev = Enqueue l \<Longrightarrow> \<not> is_finish_part l"
  by (auto simp: bridge_event_def Let_def is_finish_part_def split: if_splits)

lemma bridge_event_close:
  "bridge_event s ev = EnqueueAndClose l \<Longrightarrow> l = finish_line"
  by (auto simp: bridge_event_def Let_def split: if_splits)

lemma process_lines_finish_parts:
  "filter is_finish_part (fst (process_lines p s ls out)) =
     filter is_finish_part out @ (if snd (process_lines p s ls out) then [finish_line] else [])"
proof (induction ls arbitrary: out)
  case Nil
  then show ?case by simp
next
  case (Cons line rest)
  show ?case
  proof (cases "take 6 line = ''data: ''")
    case False
    then show ?thesis using Cons by simp
  next
    case True
    show ?thesis
    proof (cases "p (drop 6 line)")
      case None
      then show ?thesis using True Cons by simp
    next
      case (Some ev)
      show ?thesis
      proof (cases "bridge_event s ev")
        case Nothing
        then show ?thesis using True Some Cons by simp
      next
        case (Enqueue l)
        then show ?thesis
          using True Some Cons [of "out @ [l]"] bridge_event_enqueue [OF Enqueue] by simp
      next
        case (EnqueueAndClose l)
        then show ?thesis
          using True Some bridge_event_close [OF EnqueueAndClose] finish_line_is_finish_part
          by simp
      qed
    qed
  qed
qed

lemma process_lines_returned_last:
  "snd (process_lines p s ls out) \<Longrightarrow>
     fst (process_lines p s ls out) \<noteq> [] \<and> last (fst (process_lines p s ls out)) = finish_line"
proof (induction ls arbitrary: out)
  case Nil
  then show ?case by simp
next
  case (Cons line rest)
  then show ?case
    by (auto split: if_splits option.splits bridge_step.splits dest: bridge_event_close)
qed

lemmas codec_defs = example_parse_def json_string_def quoted_def sse_wire_def sse_frame_def

text \<open>
  C6. Let \<open>evs\<close> be a sequence of events that ends in \<^verbatim>\<open>done\<close> and has no other
  \<^verbatim>\<open>done\<close>, serialised frame by frame by \<^verbatim>\<open>sendSSEEvent\<close> and delivered to the bridge
  in reads cut anywhere. Provided \<^verbatim>\<open>JSON.parse\<close> reads back what \<^verbatim>\<open>JSON.stringify\<close>
  printed for each event, and prints no raw newline, the bridge enqueues one line per
  event, in order, and closes; exactly one of the lines is a finish part, the last; and the
  text parts are, in order, \<^verbatim>\<open>0:\<close> followed by the JSON text of each token's content.
\<close>

theorem bridge_round_trip:
  assumes "\<forall>e \<in> set evs. parse (stringify (event_json e)) = Some (event_json e)
                        \<and> CHR 0x0A \<notin> set (stringify (event_json e))"
    and "evs = body @ [Done_ev]"
    and "Done_ev \<notin> set body"
    and "concat vs = sse_wire stringify evs"
  shows "bridge_stream parse stringify (vs, ending) =
           \<lparr>enqueued = map (bridged stringify) evs, closed = True\<rparr>
       \<and> filter is_finish_part (map (bridged stringify) evs) = [finish_line]
       \<and> last (map (bridged stringify) evs) = finish_line
       \<and> filter is_text_part (map (bridged stringify) evs) =
           map (\<lambda>t. ''0:'' @ stringify (JStr t) @ [CHR 0x0A]) (tokens evs)"
proof -
  have nl: "\<forall>e \<in> set evs. CHR 0x0A \<notin> set (stringify (event_json e))"
    using assms(1) by simp
  have rt: "\<forall>e \<in> set body. parse (stringify (event_json e)) = Some (event_json e)"
    using assms(1,2) by simp
  have rd: "parse (stringify (event_json Done_ev)) = Some (event_json Done_ev)"
    using assms(1,2) by simp
  have sp: "split_nl (concat vs) =
      (concat (map (\<lambda>e. [''data: '' @ stringify (event_json e), []]) body)
       @ [''data: '' @ stringify (event_json Done_ev), []]) @ [[]]"
    unfolding assms(4) wire_lines [OF nl] by (simp add: assms(2))
  have lines: "butlast (split_nl (concat vs)) =
      concat (map (\<lambda>e. [''data: '' @ stringify (event_json e), []]) body)
      @ [''data: '' @ stringify (event_json Done_ev), []]"
    unfolding sp by (rule butlast_snoc)
  have "read_loop parse stringify vs [] [] =
        process_lines parse stringify (butlast (split_nl (concat vs))) []"
    using read_loop_lines [of "[]" parse stringify vs "[]"] by simp
  also have "\<dots> = process_lines parse stringify
        [''data: '' @ stringify (event_json Done_ev), []] ([] @ map (bridged stringify) body)"
    unfolding lines by (rule process_frames [OF rt assms(3)])
  also have "\<dots> = (map (bridged stringify) body @ [finish_line], True)"
    using process_done_frame [where p = parse and s = stringify, OF rd] by simp
  finally have rl: "read_loop parse stringify vs [] [] = (map (bridged stringify) evs, True)"
    by (simp add: assms(2) bridge_event_done)
  have out: "bridge_stream parse stringify (vs, ending) =
           \<lparr>enqueued = map (bridged stringify) evs, closed = True\<rparr>"
    by (simp add: bridge_stream_def rl)
  have fin: "filter is_finish_part (map (bridged stringify) evs) = [finish_line]"
    by (simp add: assms(2) finish_parts_of_bridged [OF assms(3)] bridge_event_done
        finish_line_is_finish_part)
  have lst: "last (map (bridged stringify) evs) = finish_line"
    by (simp add: assms(2) bridge_event_done)
  show ?thesis
    using out fin lst text_parts_of_bridged [of stringify evs] by simp
qed

theorem bridge_round_trip_witness:
  "list_all (\<lambda>e. example_parse (example_stringify (event_json e)) = Some (event_json e))
     example_events
   \<and> concat example_upstream = sse_wire example_stringify example_events
   \<and> bridge_stream example_parse example_stringify (example_upstream, EndOfStream) =
       \<lparr>enqueued = map (bridged example_stringify) example_events, closed = True\<rparr>
   \<and> filter is_text_part
        (enqueued (bridge_stream example_parse example_stringify (example_upstream, EndOfStream)))
       = [''0:'' @ quoted ''Key'' @ [CHR 0x0A], ''0:'' @ quoted '' points'' @ [CHR 0x0A]]
   \<and> filter is_finish_part
        (enqueued (bridge_stream example_parse example_stringify (example_upstream, EndOfStream)))
       = [finish_line]"
proof -
  have h1: "\<forall>e \<in> set example_events.
              example_parse (example_stringify (event_json e)) = Some (event_json e)
              \<and> CHR 0x0A \<notin> set (example_stringify (event_json e))"
    by (simp add: example_events_def codec_defs)
  have h2: "example_events =
      [Session_ev ''s1'', Token_ev ''Key'', Tool_executing_ev [''list_documents''],
       Tool_result_ev ''list_documents'' ''none'', Token_ev '' points''] @ [Done_ev]"
    by (simp add: example_events_def)
  have h3: "Done_ev \<notin> set [Session_ev ''s1'', Token_ev ''Key'', Tool_executing_ev [''list_documents''],
       Tool_result_ev ''list_documents'' ''none'', Token_ev '' points'']"
    by simp
  have h4: "concat example_upstream = sse_wire example_stringify example_events"
    by (simp add: example_upstream_def)
  have tk: "tokens example_events = [''Key'', '' points'']"
    by (simp add: example_events_def tokens_def List.map_filter_simps)
  show ?thesis
    using bridge_round_trip [OF h1 h2 h3 h4, of EndOfStream] h1 h4
    by (simp add: tk list_all_iff json_string_def)
qed

text \<open>
  C7. Whatever the upstream delivered before its reader reports the end, the output of the
  bridge is closed, its last line is the finish part, and it holds no other finish part.
  When the loop did not leave through \<^verbatim>\<open>case 'done'\<close>, the finish part is the one the
  bridge enqueues itself after the loop.
\<close>

theorem bridge_always_finishes:
  "closed (bridge_stream parse stringify (vs, EndOfStream))
   \<and> enqueued (bridge_stream parse stringify (vs, EndOfStream)) \<noteq> []
   \<and> last (enqueued (bridge_stream parse stringify (vs, EndOfStream))) = finish_line
   \<and> filter is_finish_part (enqueued (bridge_stream parse stringify (vs, EndOfStream)))
       = [finish_line]
   \<and> (\<not> snd (read_loop parse stringify vs [] []) \<longrightarrow>
        enqueued (bridge_stream parse stringify (vs, EndOfStream))
          = fst (read_loop parse stringify vs [] []) @ [finish_line]
        \<and> filter is_finish_part (fst (read_loop parse stringify vs [] [])) = [])"
proof -
  let ?ls = "butlast (split_nl (concat vs))"
  have rl: "read_loop parse stringify vs [] [] = process_lines parse stringify ?ls []"
    using read_loop_lines [of "[]" parse stringify vs "[]"] by simp
  show ?thesis
  proof (cases "snd (process_lines parse stringify ?ls [])")
    case True
    then show ?thesis
      using process_lines_returned_last [OF True]
        process_lines_finish_parts [of parse stringify ?ls "[]"]
      by (simp add: bridge_stream_def rl split_beta)
  next
    case False
    then show ?thesis
      using process_lines_finish_parts [of parse stringify ?ls "[]"]
        finish_line_is_finish_part
      by (simp add: bridge_stream_def rl split_beta)
  qed
qed

theorem bridge_always_finishes_witness:
  "\<not> snd (read_loop example_parse example_stringify unfinished_upstream [] [])
   \<and> enqueued (bridge_stream example_parse example_stringify (unfinished_upstream, EndOfStream))
       = [bridged example_stringify (Session_ev ''s1''), ''0:'' @ quoted ''Key'' @ [CHR 0x0A],
          finish_line]
   \<and> closed (bridge_stream example_parse example_stringify (unfinished_upstream, EndOfStream))"
proof -
  have rl: "read_loop example_parse example_stringify unfinished_upstream [] [] =
        ([bridged example_stringify (Session_ev ''s1''), ''0:'' @ quoted ''Key'' @ [CHR 0x0A]], False)"
    by (simp add: unfinished_upstream_def codec_defs bridged_def bridge_event_def
        stringify_in_template_def annotation_def Let_def)
  show ?thesis
    using bridge_always_finishes [of example_parse example_stringify unfinished_upstream]
    by (simp add: rl)
qed

end
